theory Spec2Isabelle
  imports Main "HOL-Library.Word"
begin

unbundle bit_operations_syntax

section \<open>Machine types and memory\<close>

type_synonym u8 = "8 word"
type_synonym u16 = "16 word"
type_synonym u32 = "32 word"

text \<open>
  A pointer is an address in a flat byte memory; address \<open>0\<close> is the null pointer.
  \<open>size_t\<close> values are naturals below \<open>2 ^ 32\<close> (the 32-bit targets of the library),
  and a conversion to \<open>size_t\<close> is written out as a reduction modulo \<open>2 ^ 32\<close>.
\<close>

type_synonym ptr = nat
type_synonym memory = "ptr \<Rightarrow> u8"

definition NULL :: ptr where
  "NULL = 0"

definition size_t_of_int :: "int \<Rightarrow> nat" where
  "size_t_of_int i = nat (i mod 2 ^ 32)"

text \<open>The expression \<^verbatim>\<open>(size_t)(buf_end - *buf)\<close>.\<close>

definition size_t_diff :: "ptr \<Rightarrow> ptr \<Rightarrow> nat" where
  "size_t_diff buf_end buf = size_t_of_int (int buf_end - int buf)"

text \<open>
  A pointer plus an offset, at the 32-bit width of a pointer: the sum wraps around the
  address space.
\<close>

definition ptr_add :: "ptr \<Rightarrow> nat \<Rightarrow> ptr" where
  "ptr_add p n = (p + n) mod 2 ^ 32"

text \<open>
  \<^verbatim>\<open>lwmqtt_err_t\<close> is declared in \<^verbatim>\<open>lwmqtt.h\<close>, as are the other \<^verbatim>\<open>lwmqtt_\<close> types below. The
  codes named here are the ones the modelled functions return or test; every other code
  of the enumeration is an \<open>LWMQTT_OTHER_ERROR\<close>. \<^verbatim>\<open>LWMQTT_UNLIKELY\<close> is a branch hint and
  is left out.
\<close>

datatype lwmqtt_err_t =
    LWMQTT_SUCCESS
  | LWMQTT_BUFFER_TOO_SHORT
  | LWMQTT_VARNUM_OVERFLOW
  | LWMQTT_NETWORK_FAILED_CONNECT
  | LWMQTT_NETWORK_TIMEOUT
  | LWMQTT_NETWORK_FAILED_READ
  | LWMQTT_NETWORK_FAILED_WRITE
  | LWMQTT_OTHER_ERROR nat

text \<open>
  \<^verbatim>\<open>lwmqtt_string_t\<close>: a 16-bit length and a data pointer. The pointer type is a
  parameter: the codec and the message handler see an address into the flat memory,
  the functions of \<^verbatim>\<open>string.c\<close> see the bytes the pointer leads to.
\<close>

record 'p lwmqtt_string_t =
  len :: u16
  data :: 'p

section \<open>helpers.c: the buffer codec\<close>

text \<open>
  Every function takes the cursor \<^verbatim>\<open>*buf\<close> and the limit \<^verbatim>\<open>buf_end\<close> and returns the
  error code, the cursor after the call and the value left in its output parameter.
  Functions that write also take and return the memory.
\<close>

definition lwmqtt_read_data :: "ptr \<Rightarrow> ptr \<Rightarrow> ptr \<Rightarrow> nat \<Rightarrow> lwmqtt_err_t \<times> ptr \<times> ptr" where
  "lwmqtt_read_data buf buf_end data0 n =
     (if n = 0 then (LWMQTT_SUCCESS, buf, NULL)
      else if size_t_diff buf_end buf < n then (LWMQTT_BUFFER_TOO_SHORT, buf, data0)
      else (LWMQTT_SUCCESS, buf + n, buf))"

text \<open>\<^verbatim>\<open>memcpy(dst, src, n)\<close> on the flat memory.\<close>

definition memcpy :: "memory \<Rightarrow> ptr \<Rightarrow> ptr \<Rightarrow> nat \<Rightarrow> memory" where
  "memcpy m dst src n = (\<lambda>a. if dst \<le> a \<and> a < dst + n then m (src + (a - dst)) else m a)"

definition lwmqtt_write_data :: "memory \<Rightarrow> ptr \<Rightarrow> ptr \<Rightarrow> ptr \<Rightarrow> nat \<Rightarrow> lwmqtt_err_t \<times> memory \<times> ptr" where
  "lwmqtt_write_data m buf buf_end src n =
     (if n = 0 then (LWMQTT_SUCCESS, m, buf)
      else if size_t_diff buf_end buf < n then (LWMQTT_BUFFER_TOO_SHORT, m, buf)
      else (LWMQTT_SUCCESS, memcpy m buf src n, buf + n))"

definition lwmqtt_read_num :: "memory \<Rightarrow> ptr \<Rightarrow> ptr \<Rightarrow> lwmqtt_err_t \<times> ptr \<times> u16" where
  "lwmqtt_read_num m buf buf_end =
     (if size_t_diff buf_end buf < 2 then (LWMQTT_BUFFER_TOO_SHORT, buf, 0)
      else (LWMQTT_SUCCESS, buf + 2, push_bit 8 (ucast (m buf)) OR ucast (m (buf + 1))))"

definition lwmqtt_write_num :: "memory \<Rightarrow> ptr \<Rightarrow> ptr \<Rightarrow> u16 \<Rightarrow> lwmqtt_err_t \<times> memory \<times> ptr" where
  "lwmqtt_write_num m buf buf_end num =
     (if size_t_diff buf_end buf < 2 then (LWMQTT_BUFFER_TOO_SHORT, m, buf)
      else (LWMQTT_SUCCESS, m(buf := ucast (drop_bit 8 num), buf + 1 := ucast num), buf + 2))"

definition lwmqtt_read_string ::
  "memory \<Rightarrow> ptr \<Rightarrow> ptr \<Rightarrow> ptr lwmqtt_string_t \<Rightarrow> lwmqtt_err_t \<times> ptr \<times> ptr lwmqtt_string_t" where
  "lwmqtt_read_string m buf buf_end str =
     (case lwmqtt_read_num m buf buf_end of (err, buf1, n) \<Rightarrow>
        if err \<noteq> LWMQTT_SUCCESS then (err, buf1, str)
        else (case lwmqtt_read_data buf1 buf_end (data str) (unat n) of (err2, buf2, d) \<Rightarrow>
          if err2 \<noteq> LWMQTT_SUCCESS then (err2, buf2, str\<lparr>data := d\<rparr>)
          else (LWMQTT_SUCCESS, buf2, str\<lparr>data := d, len := n\<rparr>)))"

definition lwmqtt_write_string ::
  "memory \<Rightarrow> ptr \<Rightarrow> ptr \<Rightarrow> ptr lwmqtt_string_t \<Rightarrow> lwmqtt_err_t \<times> memory \<times> ptr" where
  "lwmqtt_write_string m buf buf_end str =
     (case lwmqtt_write_num m buf buf_end (len str) of (err, m1, buf1) \<Rightarrow>
        if err \<noteq> LWMQTT_SUCCESS then (err, m1, buf1)
        else lwmqtt_write_data m1 buf1 buf_end (data str) (unat (len str)))"

definition lwmqtt_read_byte :: "memory \<Rightarrow> ptr \<Rightarrow> ptr \<Rightarrow> lwmqtt_err_t \<times> ptr \<times> u8" where
  "lwmqtt_read_byte m buf buf_end =
     (if buf_end \<le> buf then (LWMQTT_BUFFER_TOO_SHORT, buf, 0)
      else (LWMQTT_SUCCESS, buf + 1, m buf))"

definition lwmqtt_write_byte :: "memory \<Rightarrow> ptr \<Rightarrow> ptr \<Rightarrow> u8 \<Rightarrow> lwmqtt_err_t \<times> memory \<times> ptr" where
  "lwmqtt_write_byte m buf buf_end byte =
     (if buf_end \<le> buf then (LWMQTT_BUFFER_TOO_SHORT, m, buf)
      else (LWMQTT_SUCCESS, m(buf := byte), buf + 1))"

definition lwmqtt_varnum_length :: "u32 \<Rightarrow> lwmqtt_err_t \<times> int" where
  "lwmqtt_varnum_length varnum =
     (if varnum < 128 then (LWMQTT_SUCCESS, 1)
      else if varnum < 16384 then (LWMQTT_SUCCESS, 2)
      else if varnum < 2097152 then (LWMQTT_SUCCESS, 3)
      else if varnum < 268435456 then (LWMQTT_SUCCESS, 4)
      else (LWMQTT_VARNUM_OVERFLOW, 0))"

text \<open>
  The \<^verbatim>\<open>do ... while (byte & 0x80)\<close> loop of \<^verbatim>\<open>lwmqtt_read_varnum\<close>, one call per iteration;
  the state is the cursor, the 8-bit \<^verbatim>\<open>shift\<close> and the accumulated \<^verbatim>\<open>*varnum\<close>.
\<close>

function read_varnum_loop :: "memory \<Rightarrow> ptr \<Rightarrow> ptr \<Rightarrow> u8 \<Rightarrow> u32 \<Rightarrow> lwmqtt_err_t \<times> ptr \<times> u32" where
  "read_varnum_loop m buf buf_end shift varnum =
     (if buf \<ge> buf_end then (LWMQTT_BUFFER_TOO_SHORT, buf, varnum)
      else if shift \<ge> 28 then (LWMQTT_VARNUM_OVERFLOW, buf, varnum)
      else
        let byte = m buf;
            varnum' = varnum OR push_bit (unat shift) (ucast (byte AND 0x7F));
            shift' = shift + 7
        in if byte AND 0x80 \<noteq> 0 then read_varnum_loop m (buf + 1) buf_end shift' varnum'
           else (LWMQTT_SUCCESS, buf + 1, varnum'))"
  by pat_completeness auto
termination
proof (relation "measure (\<lambda>(m, buf, buf_end, shift, varnum). 28 - unat shift)")
  show "wf (measure (\<lambda>(m, buf, buf_end, shift, varnum). 28 - unat shift))"
    by simp
next
  fix m :: memory and buf buf_end :: ptr and shift :: u8 and varnum :: u32
    and byte :: u8 and varnum' :: u32 and shift' :: u8
  assume "\<not> 28 \<le> shift" and s: "shift' = shift + 7"
  then have lt: "unat shift < 28"
    by (simp add: word_le_nat_alt)
  then have "unat (shift + 7) = unat shift + 7"
    by (simp add: unat_word_ariths)
  with lt s show "((m, buf + 1, buf_end, shift', varnum'), (m, buf, buf_end, shift, varnum))
      \<in> measure (\<lambda>(m, buf, buf_end, shift, varnum). 28 - unat shift)"
    by simp
qed

definition lwmqtt_read_varnum :: "memory \<Rightarrow> ptr \<Rightarrow> ptr \<Rightarrow> lwmqtt_err_t \<times> ptr \<times> u32" where
  "lwmqtt_read_varnum m buf buf_end = read_varnum_loop m buf buf_end 0 0"

text \<open>
  The \<^verbatim>\<open>do ... while (varnum > 0)\<close> loop of \<^verbatim>\<open>lwmqtt_write_varnum\<close>.
\<close>

function write_varnum_loop :: "memory \<Rightarrow> ptr \<Rightarrow> ptr \<Rightarrow> u32 \<Rightarrow> lwmqtt_err_t \<times> memory \<times> ptr" where
  "write_varnum_loop m buf buf_end varnum =
     (if buf \<ge> buf_end then (LWMQTT_BUFFER_TOO_SHORT, m, buf)
      else
        let byte = (ucast (varnum AND 0x7F) :: u8);
            varnum' = drop_bit 7 varnum;
            byte' = (if varnum' > 0 then byte OR 0x80 else byte);
            m' = m(buf := byte')
        in if varnum' > 0 then write_varnum_loop m' (buf + 1) buf_end varnum'
           else (LWMQTT_SUCCESS, m', buf + 1))"
  by pat_completeness auto
termination
proof (relation "measure (\<lambda>(m, buf, buf_end, varnum). unat varnum)")
  show "wf (measure (\<lambda>(m, buf, buf_end, varnum). unat varnum))"
    by simp
next
  fix m m' :: memory and buf buf_end :: ptr and varnum varnum' :: u32 and byte byte' :: u8
  assume v: "varnum' = drop_bit 7 varnum" and pos: "0 < varnum'"
  from pos have "0 < unat varnum'"
    by (simp add: word_less_nat_alt)
  moreover have "unat varnum' = unat varnum div 2 ^ 7"
    unfolding v unat_drop_bit_eq by (rule drop_bit_eq_div)
  ultimately have "unat varnum' < unat varnum"
    by simp
  then show "((m', buf + 1, buf_end, varnum'), (m, buf, buf_end, varnum))
      \<in> measure (\<lambda>(m, buf, buf_end, varnum). unat varnum)"
    by simp
qed

definition lwmqtt_write_varnum :: "memory \<Rightarrow> ptr \<Rightarrow> ptr \<Rightarrow> u32 \<Rightarrow> lwmqtt_err_t \<times> memory \<times> ptr" where
  "lwmqtt_write_varnum m buf buf_end varnum = write_varnum_loop m buf buf_end varnum"

section \<open>string.c: the string utility\<close>

text \<open>
  A \<^verbatim>\<open>const char *\<close> argument is \<open>None\<close> for the null pointer and otherwise the bytes
  before the terminating NUL, so \<^verbatim>\<open>strlen\<close> is the length of the list and \<^verbatim>\<open>*b == '\0'\<close>
  holds for the empty list. The data pointer of a string built or compared here is
  modelled by the bytes it leads to.
\<close>

type_synonym cstring = "u8 list option"

definition strlen :: "u8 list \<Rightarrow> nat" where
  "strlen bs = length bs"

definition lwmqtt_string :: "cstring \<Rightarrow> cstring lwmqtt_string_t" where
  "lwmqtt_string str =
     (case str of
        None \<Rightarrow> \<lparr>len = 0, data = None\<rparr>
      | Some bs \<Rightarrow>
          let n = (word_of_nat (strlen bs) :: u16)
          in if n = 0 then \<lparr>len = 0, data = None\<rparr> else \<lparr>len = n, data = Some bs\<rparr>)"

text \<open>
  \<^verbatim>\<open>memcmp(s1, s2, n)\<close> on the bytes behind the two pointers: the difference of the first
  pair of differing bytes, read as unsigned, and 0 when the first \<open>n\<close> bytes agree.
  Reading past the bytes a pointer leads to is undefined in C and is \<open>None\<close> here.
\<close>

fun memcmp :: "u8 list \<Rightarrow> u8 list \<Rightarrow> nat \<Rightarrow> int option" where
  "memcmp xs ys 0 = Some 0"
| "memcmp (x # xs) (y # ys) (Suc n) = (if x = y then memcmp xs ys n else Some (uint x - uint y))"
| "memcmp [] ys (Suc n) = None"
| "memcmp xs [] (Suc n) = None"

definition lwmqtt_strcmp :: "cstring lwmqtt_string_t \<Rightarrow> cstring \<Rightarrow> int option" where
  "lwmqtt_strcmp a b =
     (case b of
        None \<Rightarrow> Some (if len a = 0 then 0 else 1)
      | Some bs \<Rightarrow>
          if bs = [] then Some (if len a = 0 then 0 else 1)
          else
            let b_len = strlen bs
            in if unat (len a) \<noteq> b_len then Some (if unat (len a) < b_len then - 1 else 1)
               else (case data a of None \<Rightarrow> None | Some d \<Rightarrow> memcmp d bs (unat (len a))))"

section \<open>MQTTClient.cpp: the session driver\<close>

subsection \<open>Session state\<close>

text \<open>
  \<^verbatim>\<open>lwmqtt_message_t\<close> and \<^verbatim>\<open>lwmqtt_will_t\<close> are declared in \<^verbatim>\<open>lwmqtt.h\<close>; the fields are the
  ones the driver uses. Fields of the will carry the prefix \<open>will_\<close> where the message
  has a field of the same name.
\<close>

record lwmqtt_message_t =
  qos :: int
  retained :: bool
  payload :: ptr
  payload_len :: nat

record lwmqtt_will_t =
  topic :: "cstring lwmqtt_string_t"
  will_qos :: int
  will_retained :: bool
  will_payload :: "cstring lwmqtt_string_t"

text \<open>
  The members of \<^verbatim>\<open>class MQTTClient\<close> the modelled operations read or write. \<open>'c\<close> is the
  state of the protocol engine (\<^verbatim>\<open>lwmqtt_client_t\<close>). \<^verbatim>\<open>netClient\<close> is the pointer to the
  transport object; the members \<^verbatim>\<open>_connected\<close> and \<^verbatim>\<open>_lastError\<close> lose their underscore.
\<close>

record 'c MQTTClient =
  readBuf :: ptr
  writeBuf :: ptr
  netClient :: ptr
  will :: "lwmqtt_will_t option"
  client :: 'c
  readBufSize :: nat
  writeBufSize :: nat
  timeout :: u32
  nextDupPacketID :: u16
  connected_flag :: bool
  lastError :: lwmqtt_err_t

subsection \<open>Collaborators of the session\<close>

text \<open>
  The transport object behind \<^verbatim>\<open>netClient\<close> (an Arduino \<^verbatim>\<open>Client\<close>) and the protocol engine
  (\<^verbatim>\<open>lwmqtt_publish\<close> and the other functions of \<^verbatim>\<open>lwmqtt/client.c\<close>) are parameters of the
  model. \<open>'w\<close> is the state of the world outside the session: every call on the
  transport, also the liveness query \<^verbatim>\<open>Client::connected()\<close>, takes the world and returns
  the world after the call, and so does every engine call, which reaches the transport
  through the network callbacks. The engine calls also return the engine state. The
  \<open>u16 option\<close> of \<open>lwmqtt_publish\<close> is the cell behind \<^verbatim>\<open>options.dup_id\<close> (\<open>None\<close> for a
  null pointer), passed in and out.
\<close>

record ('c, 'w) collaborators =
  Client_connected :: "'w \<Rightarrow> u8 \<times> 'w"
  Client_available :: "'w \<Rightarrow> int \<times> 'w"
  Client_stop :: "'w \<Rightarrow> 'w"
  lwmqtt_publish ::
    "'c \<Rightarrow> 'w \<Rightarrow> u16 option \<Rightarrow> cstring lwmqtt_string_t \<Rightarrow> lwmqtt_message_t \<Rightarrow> u32
      \<Rightarrow> lwmqtt_err_t \<times> 'c \<times> 'w \<times> u16 option"
  lwmqtt_subscribe_one ::
    "'c \<Rightarrow> 'w \<Rightarrow> cstring lwmqtt_string_t \<Rightarrow> int \<Rightarrow> u32 \<Rightarrow> lwmqtt_err_t \<times> 'c \<times> 'w"
  lwmqtt_unsubscribe_one ::
    "'c \<Rightarrow> 'w \<Rightarrow> cstring lwmqtt_string_t \<Rightarrow> u32 \<Rightarrow> lwmqtt_err_t \<times> 'c \<times> 'w"
  lwmqtt_yield :: "'c \<Rightarrow> 'w \<Rightarrow> nat \<Rightarrow> u32 \<Rightarrow> lwmqtt_err_t \<times> 'c \<times> 'w"
  lwmqtt_keep_alive :: "'c \<Rightarrow> 'w \<Rightarrow> u32 \<Rightarrow> lwmqtt_err_t \<times> 'c \<times> 'w"
  lwmqtt_disconnect :: "'c \<Rightarrow> 'w \<Rightarrow> u32 \<Rightarrow> lwmqtt_err_t \<times> 'c \<times> 'w"

subsection \<open>Session operations\<close>

text \<open>
  Each operation takes the collaborators, the session and the world, and returns its
  \<^verbatim>\<open>bool\<close> result, the session and the world after the call.
\<close>

definition connected :: "('c, 'w) collaborators \<Rightarrow> 'c MQTTClient \<Rightarrow> 'w \<Rightarrow> bool \<times> 'w" where
  "connected env s w =
     (if connected_flag s \<and> netClient s \<noteq> NULL
      then (case Client_connected env w of (r, w') \<Rightarrow> (r = 1, w'))
      else (False, w))"

definition close :: "('c, 'w) collaborators \<Rightarrow> 'c MQTTClient \<Rightarrow> 'w \<Rightarrow> 'c MQTTClient \<times> 'w" where
  "close env s w = (s\<lparr>connected_flag := False\<rparr>, Client_stop env w)"

text \<open>The common tail: store the error code, and on failure close and return false.\<close>

definition finish :: "('c, 'w) collaborators \<Rightarrow> 'c MQTTClient \<Rightarrow> 'w \<Rightarrow> lwmqtt_err_t
    \<Rightarrow> bool \<times> 'c MQTTClient \<times> 'w" where
  "finish env s w err =
     (let s1 = s\<lparr>lastError := err\<rparr>
      in if err \<noteq> LWMQTT_SUCCESS
         then (case close env s1 w of (s2, w2) \<Rightarrow> (False, s2, w2))
         else (True, s1, w))"

definition publish :: "('c, 'w) collaborators \<Rightarrow> 'c MQTTClient \<Rightarrow> 'w
    \<Rightarrow> cstring \<Rightarrow> ptr \<Rightarrow> int \<Rightarrow> bool \<Rightarrow> int \<Rightarrow> bool \<times> 'c MQTTClient \<times> 'w" where
  "publish env s w topic_arg payload_arg length_arg retained_arg qos_arg =
     (case connected env s w of (c, w0) \<Rightarrow>
        if \<not> c then (False, s, w0)
        else
          let message = \<lparr>qos = qos_arg, retained = retained_arg, payload = payload_arg,
                          payload_len = size_t_of_int length_arg\<rparr>;
              dup = nextDupPacketID s > 0;
              s1 = (if dup then s\<lparr>nextDupPacketID := 0\<rparr> else s);
              dup_id = (if dup then Some (nextDupPacketID s1) else None)
          in (case lwmqtt_publish env (client s1) w0 dup_id (lwmqtt_string topic_arg) message (timeout s1) of
                (err, c', w1, dup_id') \<Rightarrow>
                  let s2 = s1\<lparr>client := c'\<rparr>;
                      s3 = (case dup_id' of Some d \<Rightarrow> s2\<lparr>nextDupPacketID := d\<rparr> | None \<Rightarrow> s2)
                  in finish env s3 w1 err))"

definition subscribe :: "('c, 'w) collaborators \<Rightarrow> 'c MQTTClient \<Rightarrow> 'w
    \<Rightarrow> cstring \<Rightarrow> int \<Rightarrow> bool \<times> 'c MQTTClient \<times> 'w" where
  "subscribe env s w topic_arg qos_arg =
     (case connected env s w of (c, w0) \<Rightarrow>
        if \<not> c then (False, s, w0)
        else (case lwmqtt_subscribe_one env (client s) w0 (lwmqtt_string topic_arg) qos_arg (timeout s) of
                (err, c', w1) \<Rightarrow> finish env (s\<lparr>client := c'\<rparr>) w1 err))"

definition unsubscribe :: "('c, 'w) collaborators \<Rightarrow> 'c MQTTClient \<Rightarrow> 'w
    \<Rightarrow> cstring \<Rightarrow> bool \<times> 'c MQTTClient \<times> 'w" where
  "unsubscribe env s w topic_arg =
     (case connected env s w of (c, w0) \<Rightarrow>
        if \<not> c then (False, s, w0)
        else (case lwmqtt_unsubscribe_one env (client s) w0 (lwmqtt_string topic_arg) (timeout s) of
                (err, c', w1) \<Rightarrow> finish env (s\<lparr>client := c'\<rparr>) w1 err))"

text \<open>The second half of \<^verbatim>\<open>loop\<close>: the keep-alive call and what follows it.\<close>

definition loop_keep_alive :: "('c, 'w) collaborators \<Rightarrow> 'c MQTTClient \<Rightarrow> 'w
    \<Rightarrow> bool \<times> 'c MQTTClient \<times> 'w" where
  "loop_keep_alive env s w =
     (case lwmqtt_keep_alive env (client s) w (timeout s) of
        (err, c', w1) \<Rightarrow> finish env (s\<lparr>client := c'\<rparr>) w1 err)"

definition loop :: "('c, 'w) collaborators \<Rightarrow> 'c MQTTClient \<Rightarrow> 'w \<Rightarrow> bool \<times> 'c MQTTClient \<times> 'w" where
  "loop env s w =
     (case connected env s w of (c, w0) \<Rightarrow>
        if \<not> c then (False, s, w0)
        else (case Client_available env w0 of (available, w1) \<Rightarrow>
          if available > 0
          then (case lwmqtt_yield env (client s) w1 (size_t_of_int available) (timeout s) of
                  (err, c', w2) \<Rightarrow>
                    (case finish env (s\<lparr>client := c'\<rparr>) w2 err of
                       (ok, s3, w3) \<Rightarrow> if \<not> ok then (False, s3, w3) else loop_keep_alive env s3 w3))
          else loop_keep_alive env s w1))"

definition disconnect :: "('c, 'w) collaborators \<Rightarrow> 'c MQTTClient \<Rightarrow> 'w
    \<Rightarrow> bool \<times> 'c MQTTClient \<times> 'w" where
  "disconnect env s w =
     (case connected env s w of (c, w0) \<Rightarrow>
        if \<not> c then (False, s, w0)
        else (case lwmqtt_disconnect env (client s) w0 (timeout s) of
                (err, c', w1) \<Rightarrow>
                  (case close env (s\<lparr>client := c', lastError := err\<rparr>) w1 of
                     (s2, w2) \<Rightarrow> (lastError s2 = LWMQTT_SUCCESS, s2, w2))))"

subsection \<open>The last will\<close>

text \<open>
  The will owns heap copies of its strings. What the allocator is asked to do is
  returned as a list of events, in order; whether each of the three allocations of
  \<^verbatim>\<open>setWill\<close> succeeds is an argument (\<open>will_ok\<close>, \<open>topic_ok\<close>, \<open>payload_ok\<close>).
\<close>

datatype heap_event =
    Malloc_will
  | Strdup "u8 list"
  | Free_string cstring
  | Free_will

definition clearWill :: "'c MQTTClient \<Rightarrow> 'c MQTTClient \<times> heap_event list" where
  "clearWill s =
     (case will s of
        None \<Rightarrow> (s, [])
      | Some wl \<Rightarrow>
          (s\<lparr>will := None\<rparr>,
           (if len (will_payload wl) > 0 then [Free_string (data (will_payload wl))] else []) @
           (if len (topic wl) > 0 then [Free_string (data (topic wl))] else []) @
           [Free_will]))"

definition setWill :: "bool \<Rightarrow> bool \<Rightarrow> bool \<Rightarrow> 'c MQTTClient
    \<Rightarrow> cstring \<Rightarrow> cstring \<Rightarrow> bool \<Rightarrow> int \<Rightarrow> 'c MQTTClient \<times> heap_event list" where
  "setWill will_ok topic_ok payload_ok s topic_arg payload_arg retained_arg qos_arg =
     (if topic_arg = None \<or> topic_arg = Some [] then (s, [])
      else
        case clearWill s of (s1, ev1) \<Rightarrow>
        if \<not> will_ok then (s1\<lparr>will := None\<rparr>, ev1)
        else
          let w0 = \<lparr>topic = \<lparr>len = 0, data = None\<rparr>, will_qos = 0, will_retained = False,
                    will_payload = \<lparr>len = 0, data = None\<rparr>\<rparr>;
              s2 = s1\<lparr>will := Some w0\<rparr>;
              ev2 = ev1 @ [Malloc_will]
          in if \<not> topic_ok
             then (case clearWill s2 of (s3, ev3) \<Rightarrow> (s3, ev2 @ ev3))
             else
               let w1 = w0\<lparr>topic := lwmqtt_string topic_arg\<rparr>;
                   s3 = s1\<lparr>will := Some w1\<rparr>;
                   ev3 = ev2 @ [Strdup (the topic_arg)]
               in if payload_arg \<noteq> None \<and> payload_arg \<noteq> Some []
                  then
                    if \<not> payload_ok
                    then (case clearWill s3 of (s4, ev4) \<Rightarrow> (s4, ev3 @ ev4))
                    else (s1\<lparr>will := Some (w1\<lparr>will_payload := lwmqtt_string payload_arg,
                                               will_retained := retained_arg, will_qos := qos_arg\<rparr>)\<rparr>,
                          ev3 @ [Strdup (the payload_arg)])
                  else (s1\<lparr>will := Some (w1\<lparr>will_retained := retained_arg, will_qos := qos_arg\<rparr>)\<rparr>,
                        ev3))"

subsection \<open>Timer adapter\<close>

text \<open>
  \<^verbatim>\<open>lwmqtt_arduino_timer_t\<close>. A clock source reads the tick counter of the world \<open>'w\<close>;
  \<^verbatim>\<open>millis\<close> is the optional custom source, \<open>platform_millis\<close> the global \<^verbatim>\<open>millis()\<close>.
\<close>

record 'w lwmqtt_arduino_timer_t =
  start :: u32
  timeout :: u32
  millis :: "('w \<Rightarrow> u32) option"

definition timer_now :: "('w \<Rightarrow> u32) \<Rightarrow> 'w lwmqtt_arduino_timer_t \<Rightarrow> 'w \<Rightarrow> u32" where
  "timer_now platform_millis t w = (case millis t of Some f \<Rightarrow> f w | None \<Rightarrow> platform_millis w)"

definition lwmqtt_arduino_timer_set ::
  "('w \<Rightarrow> u32) \<Rightarrow> 'w lwmqtt_arduino_timer_t \<Rightarrow> u32 \<Rightarrow> 'w \<Rightarrow> 'w lwmqtt_arduino_timer_t" where
  "lwmqtt_arduino_timer_set platform_millis t tmo w =
     t\<lparr>timeout := tmo, start := timer_now platform_millis t w\<rparr>"

text \<open>The result is the \<^verbatim>\<open>int32_t\<close> value, as an integer.\<close>

definition lwmqtt_arduino_timer_get :: "('w \<Rightarrow> u32) \<Rightarrow> 'w lwmqtt_arduino_timer_t \<Rightarrow> 'w \<Rightarrow> int" where
  "lwmqtt_arduino_timer_get platform_millis t w =
     (let now = timer_now platform_millis t w;
          elapsed = now - start t
      in sint (timeout t - elapsed))"

subsection \<open>Transport adapter\<close>




subsection \<open>Message dispatch\<close>

text \<open>
  \<^verbatim>\<open>MQTTCallbackType\<close> with the \<^verbatim>\<open>std::function\<close> variants (\<^verbatim>\<open>MQTT_HAS_FUNCTIONAL\<close>), and the
  part of \<^verbatim>\<open>MQTTClientCallback\<close> the handler reads: the client pointer (\<open>None\<close> for null)
  and the tag. The registered function is user code; the handler's call of it is
  returned as a \<open>dispatch\<close> value holding the arguments of the call. An Arduino
  \<^verbatim>\<open>String(ptr, n)\<close> is the list of the \<open>n\<close> bytes at \<open>ptr\<close>, read when it is built.
\<close>

datatype MQTTCallbackType =
    MQTT_CB_NONE
  | MQTT_CB_SIMPLE
  | MQTT_CB_ADVANCED
  | MQTT_CB_RAW
  | MQTT_CB_FUNC_SIMPLE
  | MQTT_CB_FUNC_ADVANCED
  | MQTT_CB_FUNC_RAW

record 'c MQTTClientCallback =
  client :: "'c MQTTClient option"
  type :: MQTTCallbackType

datatype 'c dispatch =
    No_call
  | Call_raw "'c MQTTClient option" ptr nat ptr nat
  | Call_funcRaw "'c MQTTClient option" ptr nat ptr nat
  | Call_advanced "'c MQTTClient option" ptr ptr int
  | Call_funcAdvanced "'c MQTTClient option" ptr ptr int
  | Call_simple "u8 list" "u8 list"
  | Call_funcSimple "u8 list" "u8 list"

definition int_of_size_t :: "nat \<Rightarrow> int" where
  "int_of_size_t n = sint (word_of_nat n :: u32)"

definition String_of :: "memory \<Rightarrow> ptr \<Rightarrow> nat \<Rightarrow> u8 list" where
  "String_of m p n = map (\<lambda>i. m (ptr_add p i)) [0 ..< n]"

text \<open>
  The lambda \<^verbatim>\<open>can_terminate\<close>, with the two variables it captures as arguments. Its sum
  \<^verbatim>\<open>p + len\<close>, the sums \<^verbatim>\<open>readBufferSize() + 1\<close> and \<^verbatim>\<open>buf_base + buf_cap\<close> of the handler,
  and the addresses \<^verbatim>\<open>topic.data[topic.len]\<close> and \<^verbatim>\<open>message.payload[message.payload_len]\<close>
  are computed at the width of \<^verbatim>\<open>size_t\<close> and of a pointer, so they wrap.
\<close>

definition can_terminate :: "ptr \<Rightarrow> ptr \<Rightarrow> ptr \<Rightarrow> nat \<Rightarrow> bool" where
  "can_terminate buf_base buf_end p n =
     (if buf_base = NULL then False else p \<ge> buf_base \<and> ptr_add p n < buf_end)"

definition MQTTClientHandler :: "memory \<Rightarrow> 'c MQTTClientCallback \<Rightarrow> ptr lwmqtt_string_t
    \<Rightarrow> lwmqtt_message_t \<Rightarrow> memory \<times> 'c dispatch" where
  "MQTTClientHandler m cb tp message =
     (if type cb = MQTT_CB_NONE then (m, No_call)
      else if type cb = MQTT_CB_RAW
      then (m, Call_raw (client cb) (data tp) (unat (len tp)) (payload message) (payload_len message))
      else if type cb = MQTT_CB_FUNC_RAW
      then (m, Call_funcRaw (client cb) (data tp) (unat (len tp)) (payload message) (payload_len message))
      else
        let buf_base = (case client cb of Some c \<Rightarrow> readBuf c | None \<Rightarrow> NULL);
            buf_cap = (case client cb of
                         Some c \<Rightarrow> size_t_of_int (int (readBufSize c) + 1) | None \<Rightarrow> 0);
            buf_end = (if buf_base \<noteq> NULL then ptr_add buf_base buf_cap else NULL);
            m1 = (if can_terminate buf_base buf_end (data tp) (unat (len tp))
                  then m(ptr_add (data tp) (unat (len tp)) := 0) else m);
            m2 = (if payload message \<noteq> NULL
                     \<and> can_terminate buf_base buf_end (payload message) (payload_len message)
                  then m1(ptr_add (payload message) (payload_len message) := 0) else m1);
            str_topic = String_of m2 (data tp) (unat (len tp));
            str_payload = (if payload message \<noteq> NULL
                           then String_of m2 (payload message) (payload_len message) else [])
        in (case type cb of
              MQTT_CB_ADVANCED \<Rightarrow>
                (m2, Call_advanced (client cb) (data tp) (payload message)
                       (int_of_size_t (payload_len message)))
            | MQTT_CB_FUNC_ADVANCED \<Rightarrow>
                (m2, Call_funcAdvanced (client cb) (data tp) (payload message)
                       (int_of_size_t (payload_len message)))
            | MQTT_CB_FUNC_SIMPLE \<Rightarrow> (m2, Call_funcSimple str_topic str_payload)
            | MQTT_CB_SIMPLE \<Rightarrow> (m2, Call_simple str_topic str_payload)
            | _ \<Rightarrow> (m2, No_call)))"

text \<open>The values of the handler's locals \<^verbatim>\<open>buf_base\<close> and \<^verbatim>\<open>buf_end\<close>.\<close>

definition read_buffer_base :: "'c MQTTClientCallback \<Rightarrow> ptr" where
  "read_buffer_base cb = (case client cb of Some c \<Rightarrow> readBuf c | None \<Rightarrow> NULL)"

definition read_buffer_end :: "'c MQTTClientCallback \<Rightarrow> ptr" where
  "read_buffer_end cb =
     (if read_buffer_base cb \<noteq> NULL
      then ptr_add (read_buffer_base cb)
             (case client cb of
                Some c \<Rightarrow> size_t_of_int (int (readBufSize c) + 1) | None \<Rightarrow> 0)
      else NULL)"

text \<open>
  Two notions used to state what the handler does. The tags whose callbacks expect
  null-terminated strings, and the containment of a view \<open>(p, n)\<close> in the read buffer of
  the session behind the callback, reserved byte included: the buffer exists, the view
  starts at or after its base, and the byte after the view is still inside. The
  containment is stated on the addresses themselves, with no wrap-around.
\<close>

definition legacy_type :: "MQTTCallbackType \<Rightarrow> bool" where
  "legacy_type t \<longleftrightarrow> t \<in> {MQTT_CB_SIMPLE, MQTT_CB_ADVANCED, MQTT_CB_FUNC_SIMPLE, MQTT_CB_FUNC_ADVANCED}"

definition in_read_buffer :: "'c MQTTClientCallback \<Rightarrow> ptr \<Rightarrow> nat \<Rightarrow> bool" where
  "in_read_buffer cb p n =
     (case client cb of
        None \<Rightarrow> False
      | Some c \<Rightarrow> readBuf c \<noteq> NULL \<and> readBuf c \<le> p \<and> p + n < readBuf c + readBufSize c + 1)"

text \<open>
  Well-formed addresses. The read buffer of the session behind the callback, with its
  reserved byte, lies in the 32-bit address space and its end pointer is an address
  too; and a view \<open>(p, n)\<close> ends within the address space.
\<close>

definition buffer_in_address_space :: "'c MQTTClientCallback \<Rightarrow> bool" where
  "buffer_in_address_space cb =
     (case client cb of
        None \<Rightarrow> True
      | Some c \<Rightarrow> readBuf c + readBufSize c + 1 < 2 ^ 32)"

definition view_in_address_space :: "ptr \<Rightarrow> nat \<Rightarrow> bool" where
  "view_in_address_space p n = (p + n < 2 ^ 32)"

section \<open>Concrete memories\<close>

text \<open>The memory that holds the bytes \<open>bs\<close> from address \<open>base\<close> on, and 0 elsewhere.\<close>

definition bytes_at :: "ptr \<Rightarrow> u8 list \<Rightarrow> memory" where
  "bytes_at base bs a = (if base \<le> a \<and> a < base + length bs then bs ! (a - base) else 0)"

definition empty_view :: "ptr lwmqtt_string_t" where
  "empty_view = \<lparr>len = 0, data = NULL\<rparr>"

section \<open>Concrete sessions and collaborators\<close>

text \<open>
  A world that counts the calls made on the transport and the engine; the transport
  reports a dead connection, and the session still has its flag set.
\<close>

definition counting_env :: "(unit, nat) collaborators" where
  "counting_env =
     \<lparr>Client_connected = (\<lambda>w. (0, Suc w)),
      Client_available = (\<lambda>w. (0, Suc w)),
      Client_stop = Suc,
      lwmqtt_publish = (\<lambda>c w d t m tm. (LWMQTT_SUCCESS, c, Suc w, d)),
      lwmqtt_subscribe_one = (\<lambda>c w t q tm. (LWMQTT_SUCCESS, c, Suc w)),
      lwmqtt_unsubscribe_one = (\<lambda>c w t tm. (LWMQTT_SUCCESS, c, Suc w)),
      lwmqtt_yield = (\<lambda>c w n tm. (LWMQTT_SUCCESS, c, Suc w)),
      lwmqtt_keep_alive = (\<lambda>c w tm. (LWMQTT_SUCCESS, c, Suc w)),
      lwmqtt_disconnect = (\<lambda>c w tm. (LWMQTT_SUCCESS, c, Suc w))\<rparr>"

definition stale_session :: "unit MQTTClient" where
  "stale_session =
     \<lparr>readBuf = 100, writeBuf = 200, netClient = 1, will = None, client = (),
      readBufSize = 64, writeBufSize = 64, timeout = 1000, nextDupPacketID = 7,
      connected_flag = True, lastError = LWMQTT_SUCCESS\<rparr>"

text \<open>The same session with a will installed.\<close>

definition session_with_will :: "unit MQTTClient" where
  "session_with_will =
     stale_session\<lparr>will := Some \<lparr>topic = \<lparr>len = 1, data = Some [97]\<rparr>, will_qos = 1,
        will_retained = True, will_payload = \<lparr>len = 1, data = Some [98]\<rparr>\<rparr>\<rparr>"

section \<open>Properties of the buffer codec\<close>

text \<open>
  Claim C8 (zero-length fast path). With \<open>len = 0\<close>, \<^verbatim>\<open>lwmqtt_read_data\<close> and
  \<^verbatim>\<open>lwmqtt_write_data\<close> return success for every cursor and limit, also with no room
  left or with the cursor past the limit; the cursor is not moved, the memory is
  returned as it was, and the read leaves the null pointer in its output view.
\<close>

theorem zero_length_fast_path:
  "lwmqtt_read_data buf buf_end d 0 = (LWMQTT_SUCCESS, buf, NULL)
   \<and> lwmqtt_write_data m buf buf_end src 0 = (LWMQTT_SUCCESS, m, buf)"
  by (simp add: lwmqtt_read_data_def lwmqtt_write_data_def)

theorem zero_length_fast_path_witness:
  "lwmqtt_read_data 7 7 5 0 = (LWMQTT_SUCCESS, 7, NULL)
   \<and> lwmqtt_write_data (\<lambda>a. 1) 7 7 3 0 = (LWMQTT_SUCCESS, (\<lambda>a. 1), 7)"
  by (rule zero_length_fast_path)

subsection \<open>The varnum reader, step by step\<close>

text \<open>
  The defining equations of the two loops are applied by hand, one iteration at a time.
\<close>

declare read_varnum_loop.simps [simp del]

declare write_varnum_loop.simps [simp del]

lemma read_varnum_loop_short:
  "buf_end \<le> buf \<Longrightarrow> read_varnum_loop m buf buf_end shift v = (LWMQTT_BUFFER_TOO_SHORT, buf, v)"
  by (subst read_varnum_loop.simps) simp

lemma read_varnum_loop_overflow:
  "buf < buf_end \<Longrightarrow> 28 \<le> shift \<Longrightarrow>
   read_varnum_loop m buf buf_end shift v = (LWMQTT_VARNUM_OVERFLOW, buf, v)"
  by (subst read_varnum_loop.simps) simp

lemma read_varnum_loop_cont:
  "buf < buf_end \<Longrightarrow> shift < 28 \<Longrightarrow> m buf AND 0x80 \<noteq> 0 \<Longrightarrow>
   read_varnum_loop m buf buf_end shift v =
     read_varnum_loop m (buf + 1) buf_end (shift + 7)
       (v OR push_bit (unat shift) (ucast (m buf AND 0x7F)))"
  by (subst read_varnum_loop.simps) (simp add: Let_def not_le [symmetric])

lemma read_varnum_loop_last:
  "buf < buf_end \<Longrightarrow> shift < 28 \<Longrightarrow> m buf AND 0x80 = 0 \<Longrightarrow>
   read_varnum_loop m buf buf_end shift v =
     (LWMQTT_SUCCESS, buf + 1, v OR push_bit (unat shift) (ucast (m buf AND 0x7F)))"
  by (subst read_varnum_loop.simps) (simp add: Let_def not_le [symmetric])

lemma read_varnum_four:
  assumes c: "m buf AND 0x80 \<noteq> 0" "m (buf + 1) AND 0x80 \<noteq> 0"
    "m (buf + 2) AND 0x80 \<noteq> 0" "m (buf + 3) AND 0x80 \<noteq> 0"
    and r: "buf + 4 \<le> buf_end"
  shows "\<exists>v. lwmqtt_read_varnum m buf buf_end = read_varnum_loop m (buf + 4) buf_end 28 v"
proof -
  have step: "read_varnum_loop m (buf + k) buf_end sh v =
      read_varnum_loop m (buf + k + 1) buf_end (sh + 7)
        (v OR push_bit (unat sh) (ucast (m (buf + k) AND 0x7F)))"
    if "k < 4" "sh < 28" "m (buf + k) AND 0x80 \<noteq> 0" for k sh v
  proof (rule read_varnum_loop_cont)
    show "buf + k < buf_end" using r that(1) by simp
  qed (use that in simp_all)
  have a: "buf + 0 = buf" "buf + 0 + 1 = buf + 1" "buf + 1 + 1 = buf + 2"
    "buf + 2 + 1 = buf + 3" "buf + 3 + 1 = buf + 4"
    by simp_all
  have s: "(0::u8) + 7 = 7" "(7::u8) + 7 = 14" "(14::u8) + 7 = 21" "(21::u8) + 7 = 28"
    by simp_all
  have 1: "read_varnum_loop m buf buf_end 0 v = read_varnum_loop m (buf + 1) buf_end 7
      (v OR push_bit (unat (0::u8)) (ucast (m buf AND 0x7F)))" for v
    using step [of 0 0 v] c(1) unfolding a s by simp
  have 2: "read_varnum_loop m (buf + 1) buf_end 7 v = read_varnum_loop m (buf + 2) buf_end 14
      (v OR push_bit (unat (7::u8)) (ucast (m (buf + 1) AND 0x7F)))" for v
    using step [of 1 7 v] c(2) unfolding a s by simp
  have 3: "read_varnum_loop m (buf + 2) buf_end 14 v = read_varnum_loop m (buf + 3) buf_end 21
      (v OR push_bit (unat (14::u8)) (ucast (m (buf + 2) AND 0x7F)))" for v
    using step [of 2 14 v] c(3) unfolding a s by simp
  have 4: "read_varnum_loop m (buf + 3) buf_end 21 v = read_varnum_loop m (buf + 4) buf_end 28
      (v OR push_bit (unat (21::u8)) (ucast (m (buf + 3) AND 0x7F)))" for v
    using step [of 3 21 v] c(4) unfolding a s by simp
  show ?thesis
    unfolding lwmqtt_read_varnum_def 1 2 3 4 by blast
qed

text \<open>
  Claim C3 (varnum decode overflow), as amended. The loop checks the buffer bound
  before the group count. When the first four bytes all have the continuation bit set
  and a fifth byte lies before the limit, \<^verbatim>\<open>lwmqtt_read_varnum\<close> fails with
  \<^verbatim>\<open>LWMQTT_VARNUM_OVERFLOW\<close>; when the buffer ends with the fourth byte, it fails with
  \<^verbatim>\<open>LWMQTT_BUFFER_TOO_SHORT\<close>.
\<close>

theorem read_varnum_overflow:
  assumes "m buf AND 0x80 \<noteq> 0" "m (buf + 1) AND 0x80 \<noteq> 0"
    "m (buf + 2) AND 0x80 \<noteq> 0" "m (buf + 3) AND 0x80 \<noteq> 0"
  shows "(buf + 4 < buf_end \<longrightarrow>
            fst (lwmqtt_read_varnum m buf buf_end) = LWMQTT_VARNUM_OVERFLOW)
       \<and> (buf + 4 = buf_end \<longrightarrow>
            fst (lwmqtt_read_varnum m buf buf_end) = LWMQTT_BUFFER_TOO_SHORT)"
proof (intro conjI impI)
  assume "buf + 4 < buf_end"
  with read_varnum_four [OF assms, of buf_end]
  show "fst (lwmqtt_read_varnum m buf buf_end) = LWMQTT_VARNUM_OVERFLOW"
    by (auto simp: read_varnum_loop_overflow)
next
  assume "buf + 4 = buf_end"
  with read_varnum_four [OF assms, of buf_end]
  show "fst (lwmqtt_read_varnum m buf buf_end) = LWMQTT_BUFFER_TOO_SHORT"
    by (auto simp: read_varnum_loop_short)
qed

theorem read_varnum_overflow_witness:
  "fst (lwmqtt_read_varnum (bytes_at 10 [0xFF, 0xFF, 0xFF, 0xFF, 0x01]) 10 15) = LWMQTT_VARNUM_OVERFLOW
   \<and> fst (lwmqtt_read_varnum (bytes_at 20 [0x80, 0x81, 0x82, 0x83]) 20 24) = LWMQTT_BUFFER_TOO_SHORT"
  using read_varnum_overflow [of "bytes_at 10 [0xFF, 0xFF, 0xFF, 0xFF, 0x01]" 10 15]
    read_varnum_overflow [of "bytes_at 20 [0x80, 0x81, 0x82, 0x83]" 20 24]
  by (simp add: bytes_at_def)

text \<open>
  The claim as stated fails on a buffer of exactly four bytes, each with the
  continuation bit set: the result is \<^verbatim>\<open>LWMQTT_BUFFER_TOO_SHORT\<close>.
\<close>

theorem read_varnum_four_groups_counterexample:
  "fst (lwmqtt_read_varnum (bytes_at 10 [0xFF, 0xFF, 0xFF, 0xFF]) 10 14) = LWMQTT_BUFFER_TOO_SHORT
   \<and> fst (lwmqtt_read_varnum (bytes_at 10 [0xFF, 0xFF, 0xFF, 0xFF]) 10 14) \<noteq> LWMQTT_VARNUM_OVERFLOW"
  using read_varnum_four [of "bytes_at 10 [0xFF, 0xFF, 0xFF, 0xFF]" 10 14]
  by (auto simp: read_varnum_loop_short bytes_at_def)

subsection \<open>The cursor after a failed read\<close>

lemma read_varnum_loop_cursor:
  "read_varnum_loop m buf buf_end shift v = (e, buf', v') \<Longrightarrow>
     buf \<le> buf' \<and> (buf \<le> buf_end \<longrightarrow> buf' \<le> buf_end)
     \<and> (buf' = buf \<or> 7 * (buf' - buf) + unat shift \<le> 34)
     \<and> (e = LWMQTT_SUCCESS \<or> e = LWMQTT_BUFFER_TOO_SHORT \<and> buf_end \<le> buf'
          \<or> e = LWMQTT_VARNUM_OVERFLOW \<and> buf' < buf_end \<and> 28 \<le> unat shift + 7 * (buf' - buf))
     \<and> (e \<noteq> LWMQTT_SUCCESS \<longrightarrow> (\<forall>a. buf \<le> a \<and> a < buf' \<longrightarrow> m a AND 0x80 \<noteq> 0))"
proof (induction m buf buf_end shift v arbitrary: e buf' v' rule: read_varnum_loop.induct)
  case (1 m buf buf_end shift varnum)
  show ?case
  proof (cases "buf_end \<le> buf \<or> 28 \<le> shift")
    case True
    with "1.prems" show ?thesis
      by (subst (asm) read_varnum_loop.simps) (auto simp: word_le_nat_alt split: if_splits)
  next
    case False
    then have b: "buf < buf_end" and s: "shift < 28"
      by auto
    from s have us: "unat shift < 28"
      by (simp add: word_less_nat_alt)
    then have us7: "unat (shift + 7) = unat shift + 7"
      by (simp add: unat_word_ariths)
    show ?thesis
    proof (cases "m buf AND 0x80 = 0")
      case True
      with "1.prems" b s us show ?thesis
        by (auto simp: read_varnum_loop_last)
    next
      case c: False
      let ?v = "varnum OR push_bit (unat shift) (ucast (m buf AND 0x7F))"
      from "1.prems" b s c
      have r: "read_varnum_loop m (buf + 1) buf_end (shift + 7) ?v = (e, buf', v')"
        by (simp add: read_varnum_loop_cont)
      have ih: "buf + 1 \<le> buf' \<and> (buf + 1 \<le> buf_end \<longrightarrow> buf' \<le> buf_end)
         \<and> (buf' = buf + 1 \<or> 7 * (buf' - (buf + 1)) + unat (shift + 7) \<le> 34)
         \<and> (e = LWMQTT_SUCCESS \<or> e = LWMQTT_BUFFER_TOO_SHORT \<and> buf_end \<le> buf'
              \<or> e = LWMQTT_VARNUM_OVERFLOW \<and> buf' < buf_end
                 \<and> 28 \<le> unat (shift + 7) + 7 * (buf' - (buf + 1)))
         \<and> (e \<noteq> LWMQTT_SUCCESS \<longrightarrow> (\<forall>a. buf + 1 \<le> a \<and> a < buf' \<longrightarrow> m a AND 0x80 \<noteq> 0))"
        using "1.IH" [OF _ _ refl refl refl _ r] b s c
        by (simp add: not_le)
      have "\<forall>a. buf \<le> a \<and> a < buf' \<longrightarrow> m a AND 0x80 \<noteq> 0" if "e \<noteq> LWMQTT_SUCCESS"
      proof (intro allI impI)
        fix a assume "buf \<le> a \<and> a < buf'"
        then have "a = buf \<or> (buf + 1 \<le> a \<and> a < buf')"
          by auto
        with ih c that show "m a AND 0x80 \<noteq> 0"
          by blast
      qed
      with ih b us us7 show ?thesis
        by auto
    qed
  qed
qed

lemma read_varnum_failure_cursor:
  assumes "lwmqtt_read_varnum m buf buf_end = (e, buf', v')" and "e \<noteq> LWMQTT_SUCCESS"
    and "buf \<le> buf_end"
  shows "buf' = min buf_end (buf + 4)" "\<forall>a. buf \<le> a \<and> a < buf' \<longrightarrow> m a AND 0x80 \<noteq> 0"
  using read_varnum_loop_cursor [OF assms(1) [unfolded lwmqtt_read_varnum_def]] assms(2,3)
  by auto

text \<open>
  Claim C2 (cursor after a failed read), as amended. \<^verbatim>\<open>lwmqtt_read_byte\<close>,
  \<^verbatim>\<open>lwmqtt_read_num\<close> and \<^verbatim>\<open>lwmqtt_read_data\<close> leave the cursor where it was when they fail.
  \<^verbatim>\<open>lwmqtt_read_string\<close> leaves it where it was when the length prefix cannot be read,
  and two bytes further, after the prefix, when the prefix is read and the data is
  too short. \<^verbatim>\<open>lwmqtt_read_varnum\<close>, started within the limit, leaves it after the groups
  it consumed, each with the continuation bit set: at the limit when the buffer ends
  first, four bytes further on overflow.
\<close>

theorem read_failure_cursor:
  "(fst (lwmqtt_read_byte m buf buf_end) \<noteq> LWMQTT_SUCCESS \<longrightarrow>
      fst (snd (lwmqtt_read_byte m buf buf_end)) = buf)
   \<and> (fst (lwmqtt_read_num m buf buf_end) \<noteq> LWMQTT_SUCCESS \<longrightarrow>
      fst (snd (lwmqtt_read_num m buf buf_end)) = buf)
   \<and> (fst (lwmqtt_read_data buf buf_end d n) \<noteq> LWMQTT_SUCCESS \<longrightarrow>
      fst (snd (lwmqtt_read_data buf buf_end d n)) = buf)
   \<and> (fst (lwmqtt_read_string m buf buf_end str) \<noteq> LWMQTT_SUCCESS \<longrightarrow>
      fst (snd (lwmqtt_read_string m buf buf_end str)) =
        (if fst (lwmqtt_read_num m buf buf_end) \<noteq> LWMQTT_SUCCESS then buf else buf + 2))
   \<and> (buf \<le> buf_end \<and> fst (lwmqtt_read_varnum m buf buf_end) \<noteq> LWMQTT_SUCCESS \<longrightarrow>
      fst (snd (lwmqtt_read_varnum m buf buf_end)) = min buf_end (buf + 4)
      \<and> (\<forall>a. buf \<le> a \<and> a < fst (snd (lwmqtt_read_varnum m buf buf_end)) \<longrightarrow> m a AND 0x80 \<noteq> 0))"
proof (intro conjI impI)
  show "fst (snd (lwmqtt_read_byte m buf buf_end)) = buf"
    if "fst (lwmqtt_read_byte m buf buf_end) \<noteq> LWMQTT_SUCCESS"
    using that by (simp add: lwmqtt_read_byte_def split: if_splits)
  show "fst (snd (lwmqtt_read_num m buf buf_end)) = buf"
    if "fst (lwmqtt_read_num m buf buf_end) \<noteq> LWMQTT_SUCCESS"
    using that by (simp add: lwmqtt_read_num_def split: if_splits)
  show "fst (snd (lwmqtt_read_data buf buf_end d n)) = buf"
    if "fst (lwmqtt_read_data buf buf_end d n) \<noteq> LWMQTT_SUCCESS"
    using that by (simp add: lwmqtt_read_data_def split: if_splits)
  show "fst (snd (lwmqtt_read_string m buf buf_end str)) =
        (if fst (lwmqtt_read_num m buf buf_end) \<noteq> LWMQTT_SUCCESS then buf else buf + 2)"
    if "fst (lwmqtt_read_string m buf buf_end str) \<noteq> LWMQTT_SUCCESS"
    using that
    by (simp add: lwmqtt_read_string_def lwmqtt_read_num_def lwmqtt_read_data_def
        split: if_splits)
next
  assume h: "buf \<le> buf_end \<and> fst (lwmqtt_read_varnum m buf buf_end) \<noteq> LWMQTT_SUCCESS"
  obtain e buf' v' where r: "lwmqtt_read_varnum m buf buf_end = (e, buf', v')"
    by (cases "lwmqtt_read_varnum m buf buf_end")
  with h have "e \<noteq> LWMQTT_SUCCESS" and "buf \<le> buf_end"
    by simp_all
  from read_varnum_failure_cursor [OF r this]
  show "fst (snd (lwmqtt_read_varnum m buf buf_end)) = min buf_end (buf + 4)"
    and "\<forall>a. buf \<le> a \<and> a < fst (snd (lwmqtt_read_varnum m buf buf_end)) \<longrightarrow> m a AND 0x80 \<noteq> 0"
    by (simp_all add: r)
qed

theorem read_failure_cursor_witness:
  "fst (snd (lwmqtt_read_byte (bytes_at 10 [0, 5, 1]) 13 13)) = 13
   \<and> fst (snd (lwmqtt_read_num (bytes_at 10 [0, 5, 1]) 12 13)) = 12
   \<and> fst (snd (lwmqtt_read_data 12 13 NULL 5)) = 12
   \<and> fst (snd (lwmqtt_read_string (bytes_at 10 [0, 5, 1]) 12 13 empty_view)) = 12
   \<and> fst (snd (lwmqtt_read_varnum (bytes_at 10 [0, 5, 1]) 13 13)) = 13"
  using read_failure_cursor [of "bytes_at 10 [0, 5, 1]" 13 13 NULL 1 empty_view]
    read_failure_cursor [of "bytes_at 10 [0, 5, 1]" 12 13 NULL 5 empty_view]
  by (simp add: lwmqtt_read_byte_def lwmqtt_read_num_def lwmqtt_read_data_def
      lwmqtt_read_string_def lwmqtt_read_varnum_def read_varnum_loop_short
      size_t_diff_def size_t_of_int_def)

text \<open>
  The claim as stated fails for the two composed readers. A string whose prefix says 5
  with 1 byte left fails with the cursor moved from 10 to 12; a varnum of two
  continuation groups in a 2-byte buffer fails with the cursor moved from 10 to 12.
\<close>

theorem read_failure_cursor_counterexample:
  "(10::nat) \<le> 13
   \<and> fst (lwmqtt_read_string (bytes_at 10 [0, 5, 1]) 10 13 empty_view) = LWMQTT_BUFFER_TOO_SHORT
   \<and> fst (snd (lwmqtt_read_string (bytes_at 10 [0, 5, 1]) 10 13 empty_view)) = 12
   \<and> (10::nat) \<le> 12
   \<and> fst (lwmqtt_read_varnum (bytes_at 10 [0x80, 0x80]) 10 12) = LWMQTT_BUFFER_TOO_SHORT
   \<and> fst (snd (lwmqtt_read_varnum (bytes_at 10 [0x80, 0x80]) 10 12)) = 12"
proof -
  have 1: "lwmqtt_read_varnum (bytes_at 10 [0x80, 0x80]) 10 12
      = read_varnum_loop (bytes_at 10 [0x80, 0x80]) 11 12 7 0"
    unfolding lwmqtt_read_varnum_def
    by (subst read_varnum_loop_cont) (simp_all add: bytes_at_def)
  have 2: "read_varnum_loop (bytes_at 10 [0x80, 0x80]) 11 12 7 0
      = read_varnum_loop (bytes_at 10 [0x80, 0x80]) 12 12 14 0"
    by (subst read_varnum_loop_cont) (simp_all add: bytes_at_def)
  show ?thesis
    unfolding 1 2
    by (simp add: read_varnum_loop_short lwmqtt_read_string_def lwmqtt_read_num_def
        lwmqtt_read_data_def size_t_diff_def size_t_of_int_def bytes_at_def)
qed

subsection \<open>The varnum round trip\<close>

text \<open>Facts about one 7-bit group and its continuation bit.\<close>

lemma m7_32: "(0x7F :: u32) = mask 7" by (simp add: mask_eq_exp_minus_1)
lemma m7_8: "(0x7F :: u8) = mask 7" by (simp add: mask_eq_exp_minus_1)

lemma bit_0x80: "bit (0x80 :: u8) n \<longleftrightarrow> n = 7"
proof -
  have "(0x80 :: u8) = push_bit 7 1" by simp
  then show ?thesis
    by (simp only: bit_simps) auto
qed

lemma group_low_more:
  "(ucast ((ucast (v AND 0x7F) OR 0x80 :: u8) AND 0x7F) :: u32) = v AND 0x7F"
  unfolding m7_32 m7_8
  by (rule bit_word_eqI) (simp only: bit_simps bit_0x80, auto)

lemma group_low_last:
  "(ucast ((ucast (v AND 0x7F) :: u8) AND 0x7F) :: u32) = v AND 0x7F"
  unfolding m7_32 m7_8
  by (rule bit_word_eqI) (auto simp: bit_simps)

lemma group_flag_more: "(ucast ((v::u32) AND 0x7F) OR 0x80 :: u8) AND 0x80 \<noteq> 0"
proof
  assume "(ucast (v AND 0x7F) OR 0x80 :: u8) AND 0x80 = 0"
  then have "\<not> bit ((ucast (v AND 0x7F) OR 0x80 :: u8) AND 0x80) 7"
    by simp
  then show False
    by (simp only: bit_simps bit_0x80) simp
qed

lemma group_flag_last: "(ucast ((v::u32) AND 0x7F) :: u8) AND 0x80 = 0"
  unfolding m7_32
  by (rule bit_word_eqI) (simp only: bit_simps bit_0x80, auto)

lemma split7: "((v::u32) AND 0x7F) OR push_bit 7 (drop_bit 7 v) = v"
  unfolding m7_32
proof (rule bit_word_eqI)
  fix n
  assume "n < LENGTH(32)"
  then show "bit ((v AND mask 7) OR push_bit 7 (drop_bit 7 v)) n = bit v n"
    by (cases "n < 7") (auto simp: bit_simps)
qed

lemma regroup:
  "(acc OR push_bit s ((v::u32) AND 0x7F)) OR push_bit (s + 7) (drop_bit 7 v) = acc OR push_bit s v"
proof -
  have "push_bit s v = push_bit s ((v AND 0x7F) OR push_bit 7 (drop_bit 7 v))"
    by (simp only: split7)
  also have "\<dots> = push_bit s (v AND 0x7F) OR push_bit (s + 7) (drop_bit 7 v)"
    by (simp add: ac_simps)
  finally show ?thesis
    by (simp add: ac_simps)
qed

lemma drop7_zero: "drop_bit 7 (v::u32) = 0 \<Longrightarrow> v AND 0x7F = v"
  using split7 [of v] by simp

text \<open>The writer, one iteration at a time.\<close>

lemma write_varnum_loop_short:
  "buf_end \<le> buf \<Longrightarrow> write_varnum_loop m buf buf_end v = (LWMQTT_BUFFER_TOO_SHORT, m, buf)"
  by (subst write_varnum_loop.simps) simp

lemma write_varnum_loop_more:
  "buf < buf_end \<Longrightarrow> drop_bit 7 v \<noteq> 0 \<Longrightarrow>
   write_varnum_loop m buf buf_end v =
     write_varnum_loop (m(buf := ucast (v AND 0x7F) OR 0x80)) (buf + 1) buf_end (drop_bit 7 v)"
  by (subst write_varnum_loop.simps) (simp add: Let_def word_greater_zero_iff)

lemma write_varnum_loop_last:
  "buf < buf_end \<Longrightarrow> drop_bit 7 v = 0 \<Longrightarrow>
   write_varnum_loop m buf buf_end v = (LWMQTT_SUCCESS, m(buf := ucast (v AND 0x7F)), buf + 1)"
  by (subst write_varnum_loop.simps) (simp add: Let_def)

lemma unat_drop7: "unat (drop_bit 7 (v::u32)) = unat v div 128"
  unfolding unat_drop_bit_eq by (simp add: drop_bit_eq_div)

lemma drop7_eq_0_iff: "drop_bit 7 (v::u32) = 0 \<longleftrightarrow> unat v < 128"
proof -
  have "drop_bit 7 v = 0 \<longleftrightarrow> unat (drop_bit 7 v) = 0"
    by (simp add: unat_eq_0)
  also have "\<dots> \<longleftrightarrow> unat v < 128"
    unfolding unat_drop7 by (simp add: div_eq_0_iff)
  finally show ?thesis .
qed

text \<open>
  The groups written for \<open>v\<close> and read back: \<open>k\<close> bounds the number of groups, \<open>n\<close> is
  the number written.
\<close>

lemma varnum_loops:
  "unat v < 2 ^ (7 * k) \<Longrightarrow> 0 < k \<Longrightarrow> buf + k \<le> buf_end \<Longrightarrow>
   \<exists>m' n. write_varnum_loop m buf buf_end v = (LWMQTT_SUCCESS, m', buf + n) \<and> 0 < n \<and> n \<le> k
      \<and> (\<forall>j. 2 ^ (7 * j) \<le> unat v \<longrightarrow> j < n)
      \<and> (\<forall>a. a < buf \<or> buf + n \<le> a \<longrightarrow> m' a = m a)
      \<and> (\<forall>m'' buf_end2 shift acc.
            (\<forall>a. buf \<le> a \<and> a < buf + n \<longrightarrow> m'' a = m' a) \<longrightarrow> buf + n \<le> buf_end2 \<longrightarrow>
            unat shift + 7 * k \<le> 28 \<longrightarrow>
            read_varnum_loop m'' buf buf_end2 shift acc
              = (LWMQTT_SUCCESS, buf + n, acc OR push_bit (unat shift) v))"
proof (induction k arbitrary: v buf m)
  case 0
  then show ?case by simp
next
  case (Suc k)
  from Suc.prems have room: "buf < buf_end"
    by simp
  show ?case
  proof (cases "drop_bit 7 v = 0")
    case True
    then have small: "unat v < 128"
      by (simp add: drop7_eq_0_iff)
    let ?m' = "m(buf := ucast (v AND 0x7F))"
    have w: "write_varnum_loop m buf buf_end v = (LWMQTT_SUCCESS, ?m', buf + 1)"
      using room True by (rule write_varnum_loop_last)
    have low: "\<forall>j. 2 ^ (7 * j) \<le> unat v \<longrightarrow> j < 1"
    proof (intro allI impI)
      fix j :: nat
      assume "2 ^ (7 * j) \<le> unat v"
      with small have "(2::nat) ^ (7 * j) < 2 ^ 7"
        by simp
      then have "7 * j < 7"
        by (simp only: power_strict_increasing_iff) 
      then show "j < 1" by simp
    qed
    have rd: "read_varnum_loop m'' buf buf_end2 shift acc
              = (LWMQTT_SUCCESS, buf + 1, acc OR push_bit (unat shift) v)"
      if agree: "\<forall>a. buf \<le> a \<and> a < buf + 1 \<longrightarrow> m'' a = ?m' a" and lim: "buf + 1 \<le> buf_end2"
        and sh: "unat shift + 7 * Suc k \<le> 28" for m'' buf_end2 shift acc
    proof -
      from agree have b: "m'' buf = ucast (v AND 0x7F)"
        by simp
      from sh have s: "shift < 28"
        by (simp add: word_less_nat_alt)
      from lim have l: "buf < buf_end2"
        by simp
      have "read_varnum_loop m'' buf buf_end2 shift acc =
          (LWMQTT_SUCCESS, buf + 1, acc OR push_bit (unat shift) (ucast (m'' buf AND 0x7F)))"
        using l s by (rule read_varnum_loop_last) (simp add: b group_flag_last)
      also have "ucast (m'' buf AND 0x7F) = v AND 0x7F"
        by (simp only: b group_low_last)
      also have "v AND 0x7F = v"
        using True by (rule drop7_zero)
      finally show ?thesis .
    qed
    show ?thesis
    proof (intro exI conjI)
      show "write_varnum_loop m buf buf_end v = (LWMQTT_SUCCESS, ?m', buf + 1)"
        by (rule w)
      show "0 < (1::nat)" and "1 \<le> Suc k"
        by simp_all
      show "\<forall>j. 2 ^ (7 * j) \<le> unat v \<longrightarrow> j < 1"
        by (rule low)
      show "\<forall>a. a < buf \<or> buf + 1 \<le> a \<longrightarrow> ?m' a = m a"
        by simp
      show "\<forall>m'' buf_end2 shift acc.
            (\<forall>a. buf \<le> a \<and> a < buf + 1 \<longrightarrow> m'' a = ?m' a) \<longrightarrow> buf + 1 \<le> buf_end2 \<longrightarrow>
            unat shift + 7 * Suc k \<le> 28 \<longrightarrow>
            read_varnum_loop m'' buf buf_end2 shift acc
              = (LWMQTT_SUCCESS, buf + 1, acc OR push_bit (unat shift) v)"
        by (intro allI impI) (rule rd, assumption+)
    qed
  next
    case False
    then have big: "128 \<le> unat v"
      by (simp add: drop7_eq_0_iff)
    have k: "0 < k"
    proof (rule ccontr)
      assume "\<not> 0 < k"
      with Suc.prems(1) have "unat v < 128" by simp
      with big show False by simp
    qed
    let ?b = "ucast (v AND 0x7F) OR 0x80 :: u8"
    let ?m1 = "m(buf := ?b)"
    let ?v = "drop_bit 7 v"
    have w: "write_varnum_loop m buf buf_end v = write_varnum_loop ?m1 (buf + 1) buf_end ?v"
      using room False by (rule write_varnum_loop_more)
    from Suc.prems(1) have "unat v < 2 ^ (7 * k) * 128"
      by (simp add: power_add mult.commute)
    then have v': "unat ?v < 2 ^ (7 * k)"
      by (simp add: unat_drop7 less_mult_imp_div_less)
    from Suc.prems(3) have room': "buf + 1 + k \<le> buf_end"
      by simp
    from Suc.IH [OF v' k room', of ?m1]
    obtain m' n where
      iw: "write_varnum_loop ?m1 (buf + 1) buf_end ?v = (LWMQTT_SUCCESS, m', buf + 1 + n)"
      and n: "0 < n" "n \<le> k"
      and ilow: "\<forall>j. 2 ^ (7 * j) \<le> unat ?v \<longrightarrow> j < n"
      and iframe: "\<forall>a. a < buf + 1 \<or> buf + 1 + n \<le> a \<longrightarrow> m' a = ?m1 a"
      and ird0: "\<forall>m'' buf_end2 shift acc.
            (\<forall>a. buf + 1 \<le> a \<and> a < buf + 1 + n \<longrightarrow> m'' a = m' a) \<longrightarrow> buf + 1 + n \<le> buf_end2 \<longrightarrow>
            unat shift + 7 * k \<le> 28 \<longrightarrow>
            read_varnum_loop m'' (buf + 1) buf_end2 shift acc
              = (LWMQTT_SUCCESS, buf + 1 + n, acc OR push_bit (unat shift) ?v)"
      by (elim exE conjE) (rule that; assumption)
    have ird: "read_varnum_loop m'' (buf + 1) buf_end2 shift acc
              = (LWMQTT_SUCCESS, buf + 1 + n, acc OR push_bit (unat shift) ?v)"
      if "\<forall>a. buf + 1 \<le> a \<and> a < buf + 1 + n \<longrightarrow> m'' a = m' a" "buf + 1 + n \<le> buf_end2"
        "unat shift + 7 * k \<le> 28" for m'' buf_end2 shift acc
      by (rule ird0 [THEN spec, THEN spec, THEN spec, THEN spec, THEN mp, THEN mp, THEN mp])
        (rule that)+
    have w': "write_varnum_loop m buf buf_end v = (LWMQTT_SUCCESS, m', buf + Suc n)"
      using w iw by simp
    have low: "\<forall>j. 2 ^ (7 * j) \<le> unat v \<longrightarrow> j < Suc n"
    proof (intro allI impI)
      fix j :: nat
      assume a: "2 ^ (7 * j) \<le> unat v"
      show "j < Suc n"
      proof (cases j)
        case 0
        then show ?thesis by simp
      next
        case (Suc i)
        with a have "2 ^ (7 * i) * 128 \<le> unat v"
          by (simp add: power_add mult.commute)
        then have "2 ^ (7 * i) \<le> unat v div 128"
          by (simp add: less_eq_div_iff_mult_less_eq)
        then have "i < n"
          using ilow by (simp add: unat_drop7)
        with Suc show ?thesis by simp
      qed
    qed
    have frame: "\<forall>a. a < buf \<or> buf + Suc n \<le> a \<longrightarrow> m' a = m a"
      using iframe by auto
    have first: "m' buf = ?b"
      using iframe by simp
    have rd: "read_varnum_loop m'' buf buf_end2 shift acc
              = (LWMQTT_SUCCESS, buf + Suc n, acc OR push_bit (unat shift) v)"
      if agree: "\<forall>a. buf \<le> a \<and> a < buf + Suc n \<longrightarrow> m'' a = m' a" and lim: "buf + Suc n \<le> buf_end2"
        and sh: "unat shift + 7 * Suc k \<le> 28" for m'' buf_end2 shift acc
    proof -
      from agree first have b: "m'' buf = ?b"
        by simp
      from sh have s: "shift < 28" and us: "unat shift < 28"
        by (simp_all add: word_less_nat_alt)
      from us have us7: "unat (shift + 7) = unat shift + 7"
        by (simp add: unat_word_ariths)
      from lim have l: "buf < buf_end2"
        by simp
      have "read_varnum_loop m'' buf buf_end2 shift acc =
          read_varnum_loop m'' (buf + 1) buf_end2 (shift + 7)
            (acc OR push_bit (unat shift) (ucast (m'' buf AND 0x7F)))"
        using l s by (rule read_varnum_loop_cont) (simp only: b group_flag_more, simp)
      also have "ucast (m'' buf AND 0x7F) = v AND 0x7F"
        by (simp only: b group_low_more)
      also have "read_varnum_loop m'' (buf + 1) buf_end2 (shift + 7)
            (acc OR push_bit (unat shift) (v AND 0x7F))
          = (LWMQTT_SUCCESS, buf + 1 + n,
             (acc OR push_bit (unat shift) (v AND 0x7F)) OR push_bit (unat (shift + 7)) ?v)"
        using agree lim sh by (intro ird) (simp_all add: us7)
      also have "(acc OR push_bit (unat shift) (v AND 0x7F)) OR push_bit (unat (shift + 7)) ?v
          = acc OR push_bit (unat shift) v"
        unfolding us7 by (rule regroup)
      finally show ?thesis
        by simp
    qed
    show ?thesis
    proof (intro exI conjI)
      show "write_varnum_loop m buf buf_end v = (LWMQTT_SUCCESS, m', buf + Suc n)"
        by (rule w')
      show "0 < Suc n" and "Suc n \<le> Suc k"
        using n by simp_all
      show "\<forall>j. 2 ^ (7 * j) \<le> unat v \<longrightarrow> j < Suc n"
        by (rule low)
      show "\<forall>a. a < buf \<or> buf + Suc n \<le> a \<longrightarrow> m' a = m a"
        by (rule frame)
      show "\<forall>m'' buf_end2 shift acc.
            (\<forall>a. buf \<le> a \<and> a < buf + Suc n \<longrightarrow> m'' a = m' a) \<longrightarrow> buf + Suc n \<le> buf_end2 \<longrightarrow>
            unat shift + 7 * Suc k \<le> 28 \<longrightarrow>
            read_varnum_loop m'' buf buf_end2 shift acc
              = (LWMQTT_SUCCESS, buf + Suc n, acc OR push_bit (unat shift) v)"
        by (intro allI impI) (rule rd, assumption+)
    qed
  qed
qed

text \<open>
  A value below \<open>2 ^ (7 * k)\<close> that needs all of \<open>k\<close> groups is written in exactly \<open>k\<close>
  bytes, nothing else is touched, and reading those bytes gives the value back.
\<close>

lemma varnum_groups:
  assumes "unat v < 2 ^ (7 * k)" "0 < k" "k \<le> 4" "k = 1 \<or> 2 ^ (7 * (k - 1)) \<le> unat v"
    and "buf + k \<le> buf_end"
  shows "\<exists>m'. lwmqtt_write_varnum m buf buf_end v = (LWMQTT_SUCCESS, m', buf + k)
           \<and> lwmqtt_read_varnum m' buf (buf + k) = (LWMQTT_SUCCESS, buf + k, v)
           \<and> (\<forall>a. a < buf \<or> buf + k \<le> a \<longrightarrow> m' a = m a)"
proof -
  from varnum_loops [OF assms(1,2,5), of m]
  obtain m' n where
      w: "write_varnum_loop m buf buf_end v = (LWMQTT_SUCCESS, m', buf + n)"
      and n: "0 < n" "n \<le> k"
      and low: "\<forall>j. 2 ^ (7 * j) \<le> unat v \<longrightarrow> j < n"
      and frame: "\<forall>a. a < buf \<or> buf + n \<le> a \<longrightarrow> m' a = m a"
      and rd: "\<forall>m'' buf_end2 shift acc.
            (\<forall>a. buf \<le> a \<and> a < buf + n \<longrightarrow> m'' a = m' a) \<longrightarrow> buf + n \<le> buf_end2 \<longrightarrow>
            unat shift + 7 * k \<le> 28 \<longrightarrow>
            read_varnum_loop m'' buf buf_end2 shift acc
              = (LWMQTT_SUCCESS, buf + n, acc OR push_bit (unat shift) v)"
    by (elim exE conjE) (rule that; assumption)
  have nk: "n = k"
  proof (cases "k = 1")
    case True
    with n show ?thesis by simp
  next
    case False
    with assms(4) have "2 ^ (7 * (k - 1)) \<le> unat v"
      by simp
    with low have "k - 1 < n"
      by simp
    with n show ?thesis by simp
  qed
  have "unat (0::u8) + 7 * k \<le> 28"
    using assms(3) by simp
  with rd have "read_varnum_loop m' buf (buf + n) 0 0
      = (LWMQTT_SUCCESS, buf + n, 0 OR push_bit (unat (0::u8)) v)"
    by simp
  then have r: "lwmqtt_read_varnum m' buf (buf + n) = (LWMQTT_SUCCESS, buf + n, v)"
    by (simp add: lwmqtt_read_varnum_def)
  show ?thesis
    using w r frame unfolding nk lwmqtt_write_varnum_def by (intro exI [of _ m']) simp
qed

text \<open>
  The round trip for the values in range: for every \<open>v\<close> in \<open>[0, 268435455]\<close>,
  \<^verbatim>\<open>lwmqtt_varnum_length\<close> succeeds with a length \<open>n\<close> between 1 and 4, and with \<open>n\<close> bytes of
  room \<^verbatim>\<open>lwmqtt_write_varnum\<close> succeeds and moves the cursor by exactly \<open>n\<close>, and
  \<^verbatim>\<open>lwmqtt_read_varnum\<close> on the bytes written succeeds, moves its cursor by \<open>n\<close> and yields
  \<open>v\<close>.
\<close>

lemma varnum_roundtrip:
  assumes "v < 268435456"
  shows "\<exists>n. lwmqtt_varnum_length v = (LWMQTT_SUCCESS, int n) \<and> 0 < n \<and> n \<le> 4
           \<and> (buf + n \<le> buf_end \<longrightarrow>
                (\<exists>m'. lwmqtt_write_varnum m buf buf_end v = (LWMQTT_SUCCESS, m', buf + n)
                   \<and> lwmqtt_read_varnum m' buf (buf + n) = (LWMQTT_SUCCESS, buf + n, v)
                   \<and> (\<forall>a. a < buf \<or> buf + n \<le> a \<longrightarrow> m' a = m a)))"
proof -
  from assms have u: "unat v < 268435456"
    by (simp add: word_less_nat_alt)
  consider (1) "unat v < 128" | (2) "128 \<le> unat v" "unat v < 16384"
    | (3) "16384 \<le> unat v" "unat v < 2097152" | (4) "2097152 \<le> unat v" "unat v < 268435456"
    using u by linarith
  then show ?thesis
  proof cases
    case 1
    then have l: "lwmqtt_varnum_length v = (LWMQTT_SUCCESS, int 1)"
      by (simp add: lwmqtt_varnum_length_def word_less_nat_alt)
    show ?thesis
      using l varnum_groups [of v 1 buf buf_end m] 1
      by (intro exI [of _ 1]) simp
  next
    case 2
    then have l: "lwmqtt_varnum_length v = (LWMQTT_SUCCESS, int 2)"
      by (simp add: lwmqtt_varnum_length_def word_less_nat_alt)
    show ?thesis
      using l varnum_groups [of v 2 buf buf_end m] 2
      by (intro exI [of _ 2]) simp
  next
    case 3
    then have l: "lwmqtt_varnum_length v = (LWMQTT_SUCCESS, int 3)"
      by (simp add: lwmqtt_varnum_length_def word_less_nat_alt)
    show ?thesis
      using l varnum_groups [of v 3 buf buf_end m] 3
      by (intro exI [of _ 3]) simp
  next
    case 4
    then have l: "lwmqtt_varnum_length v = (LWMQTT_SUCCESS, int 4)"
      by (simp add: lwmqtt_varnum_length_def word_less_nat_alt)
    show ?thesis
      using l varnum_groups [of v 4 buf buf_end m] 4
      by (intro exI [of _ 4]) simp
  qed
qed

lemma write_varnum_268435456:
  "lwmqtt_write_varnum (bytes_at 10 []) 10 15 268435456
     = (LWMQTT_SUCCESS,
        (bytes_at 10 [])(10 := 0x80, 11 := 0x80, 12 := 0x80, 13 := 0x80, 14 := 0x01), 15)"
proof -
  have 1: "write_varnum_loop m 10 15 268435456 = write_varnum_loop (m(10 := 0x80)) 11 15 2097152" for m
    by (subst write_varnum_loop_more) simp_all
  have 2: "write_varnum_loop m 11 15 2097152 = write_varnum_loop (m(11 := 0x80)) 12 15 16384" for m
    by (subst write_varnum_loop_more) simp_all
  have 3: "write_varnum_loop m 12 15 16384 = write_varnum_loop (m(12 := 0x80)) 13 15 128" for m
    by (subst write_varnum_loop_more) simp_all
  have 4: "write_varnum_loop m 13 15 128 = write_varnum_loop (m(13 := 0x80)) 14 15 1" for m
    by (subst write_varnum_loop_more) simp_all
  have 5: "write_varnum_loop m 14 15 1 = (LWMQTT_SUCCESS, m(14 := 0x01), 15)" for m
    by (subst write_varnum_loop_last) simp_all
  show ?thesis
    unfolding lwmqtt_write_varnum_def 1 2 3 4 5 ..
qed

text \<open>
  Claim C1 (varnum round trip and overflow). The round trip holds for every value in
  range, as shown above. The last part does not hold of the code: the loop of
  \<^verbatim>\<open>lwmqtt_write_varnum\<close> has no group count, so encoding 268435456 with five bytes of room
  succeeds, moves the cursor by five and writes the groups \<open>80 80 80 80 01\<close>, although
  \<^verbatim>\<open>lwmqtt_varnum_length\<close> reports \<^verbatim>\<open>LWMQTT_VARNUM_OVERFLOW\<close> for that value and
  \<^verbatim>\<open>lwmqtt_read_varnum\<close> rejects the bytes written with \<^verbatim>\<open>LWMQTT_VARNUM_OVERFLOW\<close>.
\<close>

theorem write_varnum_accepts_overflow:
  "fst (lwmqtt_write_varnum (bytes_at 10 []) 10 15 268435456) = LWMQTT_SUCCESS
   \<and> snd (snd (lwmqtt_write_varnum (bytes_at 10 []) 10 15 268435456)) = 15
   \<and> map (fst (snd (lwmqtt_write_varnum (bytes_at 10 []) 10 15 268435456))) [10, 11, 12, 13, 14]
        = [0x80, 0x80, 0x80, 0x80, 0x01]
   \<and> fst (lwmqtt_varnum_length 268435456) = LWMQTT_VARNUM_OVERFLOW
   \<and> fst (lwmqtt_read_varnum
             (fst (snd (lwmqtt_write_varnum (bytes_at 10 []) 10 15 268435456))) 10 15)
        = LWMQTT_VARNUM_OVERFLOW"
proof -
  let ?m = "(bytes_at 10 [])(10 := 0x80, 11 := 0x80, 12 := 0x80, 13 := 0x80, 14 := 0x01)"
  have "\<exists>v. lwmqtt_read_varnum ?m 10 15 = read_varnum_loop ?m (10 + 4) 15 28 v"
    by (rule read_varnum_four) simp_all
  then have "fst (lwmqtt_read_varnum ?m 10 15) = LWMQTT_VARNUM_OVERFLOW"
    by (auto simp: read_varnum_loop_overflow)
  then show ?thesis
    by (simp add: write_varnum_268435456 lwmqtt_varnum_length_def)
qed

section \<open>Properties of the string utility\<close>

lemma memcmp_bytewise:
  "n \<le> length xs \<Longrightarrow> n \<le> length ys \<Longrightarrow>
   \<exists>r. memcmp xs ys n = Some r
     \<and> (r = 0 \<longleftrightarrow> take n xs = take n ys)
     \<and> (r < 0 \<longleftrightarrow> (take n xs, take n ys) \<in> lexord {(x, y). x < y})
     \<and> (r > 0 \<longleftrightarrow> (take n ys, take n xs) \<in> lexord {(x, y). x < y})"
proof (induction xs ys n rule: memcmp.induct)
  case (1 xs ys)
  then show ?case by simp
next
  case (2 x xs y ys n)
  show ?case
  proof (cases "x = y")
    case True
    with 2 show ?thesis by simp
  next
    case False
    then have "uint x \<noteq> uint y"
      by (simp add: word_uint_eq_iff)
    then show ?thesis
      using False by (auto simp: word_less_def)
  qed
next
  case (3 ys n)
  then show ?case by simp
next
  case (4 xs n)
  then show ?case by simp
qed

text \<open>
  Claim C9 (string comparison). For a null or empty C string \<open>b\<close>, \<^verbatim>\<open>lwmqtt_strcmp\<close>
  returns 0 when \<open>a\<close> has length 0 and 1 otherwise (the empty operand is the smaller
  one). For a non-empty \<open>b\<close> of another length, the result is \<open>-1\<close> when \<open>a\<close> is shorter
  and 1 when it is longer. For a non-empty \<open>b\<close> of the same length, with \<open>a\<close> a valid
  view (its data holds at least its length in bytes), the result is that of the
  byte-wise comparison: 0 exactly when the contents are equal, negative exactly when
  the contents of \<open>a\<close> come first in the order of their first differing byte (read as
  unsigned), positive exactly when those of \<open>b\<close> do.
\<close>

theorem strcmp_semantics:
  "(b = None \<or> b = Some [] \<longrightarrow> lwmqtt_strcmp a b = Some (if len a = 0 then 0 else 1))
   \<and> (b = Some bs \<and> bs \<noteq> [] \<and> unat (len a) < length bs \<longrightarrow> lwmqtt_strcmp a b = Some (- 1))
   \<and> (b = Some bs \<and> bs \<noteq> [] \<and> length bs < unat (len a) \<longrightarrow> lwmqtt_strcmp a b = Some 1)
   \<and> (b = Some bs \<and> bs \<noteq> [] \<and> unat (len a) = length bs \<and> data a = Some d \<and> length bs \<le> length d \<longrightarrow>
        (\<exists>r. lwmqtt_strcmp a b = Some r
           \<and> (r = 0 \<longleftrightarrow> take (length bs) d = bs)
           \<and> (r < 0 \<longleftrightarrow> (take (length bs) d, bs) \<in> lexord {(x, y). x < y})
           \<and> (r > 0 \<longleftrightarrow> (bs, take (length bs) d) \<in> lexord {(x, y). x < y})))"
proof (intro conjI impI)
  assume "b = None \<or> b = Some []"
  then show "lwmqtt_strcmp a b = Some (if len a = 0 then 0 else 1)"
    by (auto simp: lwmqtt_strcmp_def)
next
  assume "b = Some bs \<and> bs \<noteq> [] \<and> unat (len a) < length bs"
  then show "lwmqtt_strcmp a b = Some (- 1)"
    by (simp add: lwmqtt_strcmp_def strlen_def)
next
  assume "b = Some bs \<and> bs \<noteq> [] \<and> length bs < unat (len a)"
  then show "lwmqtt_strcmp a b = Some 1"
    by (simp add: lwmqtt_strcmp_def strlen_def)
next
  assume h: "b = Some bs \<and> bs \<noteq> [] \<and> unat (len a) = length bs \<and> data a = Some d \<and> length bs \<le> length d"
  then have eq: "lwmqtt_strcmp a b = memcmp d bs (length bs)"
    by (simp add: lwmqtt_strcmp_def strlen_def)
  from h have "length bs \<le> length d" and "length bs \<le> length bs"
    by simp_all
  from memcmp_bytewise [OF this] show "\<exists>r. lwmqtt_strcmp a b = Some r
           \<and> (r = 0 \<longleftrightarrow> take (length bs) d = bs)
           \<and> (r < 0 \<longleftrightarrow> (take (length bs) d, bs) \<in> lexord {(x, y). x < y})
           \<and> (r > 0 \<longleftrightarrow> (bs, take (length bs) d) \<in> lexord {(x, y). x < y})"
    by (simp add: eq)
qed

theorem strcmp_semantics_witness:
  "lwmqtt_strcmp \<lparr>len = 0, data = None\<rparr> None = Some 0
   \<and> lwmqtt_strcmp \<lparr>len = 2, data = Some [97, 98]\<rparr> (Some []) = Some 1
   \<and> lwmqtt_strcmp \<lparr>len = 2, data = Some [97, 98]\<rparr> (Some [97, 98, 99]) = Some (- 1)
   \<and> lwmqtt_strcmp \<lparr>len = 2, data = Some [97, 98]\<rparr> (Some [122]) = Some 1
   \<and> (\<exists>r. lwmqtt_strcmp \<lparr>len = 2, data = Some [97, 98]\<rparr> (Some [97, 99]) = Some r \<and> r < 0)"
  using strcmp_semantics [where b = None and a = "\<lparr>len = 0, data = None\<rparr>" and bs = "[]" and d = "[]"]
    strcmp_semantics [where b = "Some []" and a = "\<lparr>len = 2, data = Some [97, 98]\<rparr>"
      and bs = "[]" and d = "[]"]
    strcmp_semantics [where b = "Some [97, 98, 99]" and bs = "[97, 98, 99]"
      and a = "\<lparr>len = 2, data = Some [97, 98]\<rparr>" and d = "[]"]
    strcmp_semantics [where b = "Some [122]" and bs = "[122]"
      and a = "\<lparr>len = 2, data = Some [97, 98]\<rparr>" and d = "[]"]
    strcmp_semantics [where b = "Some [97, 99]" and bs = "[97, 99]"
      and a = "\<lparr>len = 2, data = Some [97, 98]\<rparr>" and d = "[97, 98]"]
  by (auto simp: word_less_def)

section \<open>Properties of the timer adapter\<close>

lemma timer_get_eq:
  "lwmqtt_arduino_timer_get pm t w =
     signed_take_bit 31 (uint (timeout t) - (uint (timer_now pm t w) - uint (start t)) mod 2 ^ 32)"
proof -
  have "sint (timeout t - (timer_now pm t w - start t))
      = signed_take_bit 31 (uint (timeout t - (timer_now pm t w - start t)))"
    by (simp add: sint_uint)
  also have "uint (timeout t - (timer_now pm t w - start t))
      = (uint (timeout t) - (uint (timer_now pm t w) - uint (start t)) mod 2 ^ 32) mod 2 ^ 32"
    by (simp add: uint_word_ariths)
  also have "signed_take_bit 31 (\<dots>) = signed_take_bit 31 (uint (timeout t) - (uint (timer_now pm t w) - uint (start t)) mod 2 ^ 32)"
    by (simp add: signed_take_bit_eq_iff_take_bit_eq take_bit_eq_mod)
  finally show ?thesis
    by (simp add: lwmqtt_arduino_timer_get_def Let_def)
qed

lemma timer_now_set: "timer_now pm (lwmqtt_arduino_timer_set pm t T w0) w = timer_now pm t w"
  by (simp add: timer_now_def lwmqtt_arduino_timer_set_def)

lemma timer_set_get:
  assumes "timer_now pm t w1 = timer_now pm t w0 + d"
  shows "lwmqtt_arduino_timer_get pm (lwmqtt_arduino_timer_set pm t T w0) w1
           = signed_take_bit 31 (uint T - uint d)"
proof -
  have "timer_now pm t w1 - timer_now pm t w0 = d"
    using assms by simp
  moreover have "uint (timer_now pm t w1 - timer_now pm t w0)
      = (uint (timer_now pm t w1) - uint (timer_now pm t w0)) mod 2 ^ 32"
    by (simp add: uint_word_ariths)
  ultimately have "(uint (timer_now pm t w1) - uint (timer_now pm t w0)) mod 2 ^ 32 = uint d"
    by simp
  then show ?thesis
    by (simp add: timer_get_eq timer_now_set) (simp add: lwmqtt_arduino_timer_set_def)
qed

text \<open>
  Claim C6 (timer rollover). For every start tick, timeout and current tick, the
  remaining time is \<open>timeout - ((now - start) mod 2 ^ 32)\<close> read as a signed 32-bit
  value. When the tick counter has advanced by \<open>d\<close> ticks since the timer was armed,
  in wrapping 32-bit arithmetic and so also across a wraparound of the counter, the
  elapsed time is \<open>d\<close>, and the result is \<open>timeout - d\<close> itself whenever that fits the
  signed range: negative exactly when more than \<open>timeout\<close> ticks have passed.
\<close>

theorem timer_rollover:
  "lwmqtt_arduino_timer_get pm t w =
     signed_take_bit 31 (uint (timeout t) - (uint (timer_now pm t w) - uint (start t)) mod 2 ^ 32)
   \<and> (timer_now pm t w1 = timer_now pm t w0 + d \<longrightarrow>
        lwmqtt_arduino_timer_get pm (lwmqtt_arduino_timer_set pm t T w0) w1
          = signed_take_bit 31 (uint T - uint d))
   \<and> (timer_now pm t w1 = timer_now pm t w0 + d \<and> - (2 ^ 31) \<le> uint T - uint d
        \<and> uint T - uint d < 2 ^ 31 \<longrightarrow>
        lwmqtt_arduino_timer_get pm (lwmqtt_arduino_timer_set pm t T w0) w1 = uint T - uint d)"
proof (intro conjI impI)
  show "lwmqtt_arduino_timer_get pm t w =
     signed_take_bit 31 (uint (timeout t) - (uint (timer_now pm t w) - uint (start t)) mod 2 ^ 32)"
    by (rule timer_get_eq)
next
  assume "timer_now pm t w1 = timer_now pm t w0 + d"
  then show "lwmqtt_arduino_timer_get pm (lwmqtt_arduino_timer_set pm t T w0) w1
          = signed_take_bit 31 (uint T - uint d)"
    by (rule timer_set_get)
next
  assume a: "timer_now pm t w1 = timer_now pm t w0 + d \<and> - (2 ^ 31) \<le> uint T - uint d
        \<and> uint T - uint d < 2 ^ 31"
  then have "lwmqtt_arduino_timer_get pm (lwmqtt_arduino_timer_set pm t T w0) w1
          = signed_take_bit 31 (uint T - uint d)"
    by (simp add: timer_set_get)
  also have "\<dots> = uint T - uint d"
    using a by (simp add: signed_take_bit_int_eq_self)
  finally show "lwmqtt_arduino_timer_get pm (lwmqtt_arduino_timer_set pm t T w0) w1 = uint T - uint d" .
qed

text \<open>Armed at tick 0xFFFFFFF0 (world 0) for 100 ms, queried at tick 0x10 (world 1).\<close>

theorem timer_rollover_witness:
  "lwmqtt_arduino_timer_get (\<lambda>w::nat. if w = 0 then 0xFFFFFFF0 else 0x10)
      (lwmqtt_arduino_timer_set (\<lambda>w::nat. if w = 0 then 0xFFFFFFF0 else 0x10)
         \<lparr>start = 0, timeout = 0, millis = None\<rparr> 100 0) 1 = 68"
  using timer_rollover [of "\<lambda>w::nat. if w = 0 then 0xFFFFFFF0 else 0x10"
      "\<lparr>start = 0, timeout = 0, millis = None\<rparr>" 0 1 0 "0x20" 100]
  by (simp add: timer_now_def)

section \<open>Properties of the transport adapter\<close>














section \<open>Properties of the session driver\<close>

lemma connected_world:
  "snd (connected env s w) =
     (if connected_flag s \<and> netClient s \<noteq> NULL then snd (Client_connected env w) else w)"
  by (simp add: connected_def split: prod.splits)

text \<open>
  Claim C4 (session guard). Whenever \<^verbatim>\<open>connected()\<close> is false, \<^verbatim>\<open>publish\<close>, \<^verbatim>\<open>subscribe\<close>,
  \<^verbatim>\<open>unsubscribe\<close>, \<^verbatim>\<open>loop\<close> and \<^verbatim>\<open>disconnect\<close> return false and leave the session as it
  was; the world is the one the guard itself leaves: untouched when the flag is clear
  or there is no transport object, and after the one liveness query of \<^verbatim>\<open>connected()\<close>
  otherwise. No engine call and no other transport call is made.
\<close>

theorem session_guard:
  assumes "\<not> fst (connected env s w)"
  shows "publish env s w tp pl n r q = (False, s, snd (connected env s w))
       \<and> subscribe env s w tp q = (False, s, snd (connected env s w))
       \<and> unsubscribe env s w tp = (False, s, snd (connected env s w))
       \<and> loop env s w = (False, s, snd (connected env s w))
       \<and> disconnect env s w = (False, s, snd (connected env s w))
       \<and> snd (connected env s w) =
           (if connected_flag s \<and> netClient s \<noteq> NULL then snd (Client_connected env w) else w)"
proof -
  obtain c w0 where cw: "connected env s w = (c, w0)"
    by (cases "connected env s w")
  with assms have c: "\<not> c"
    by simp
  show ?thesis
    using c cw connected_world [of env s w]
    by (simp add: publish_def subscribe_def unsubscribe_def loop_def disconnect_def)
qed

theorem session_guard_witness:
  "\<not> fst (connected counting_env stale_session 0)
   \<and> publish counting_env stale_session 0 (Some [97]) 300 2 False 0 = (False, stale_session, 1)
   \<and> subscribe counting_env stale_session 0 (Some [97]) 0 = (False, stale_session, 1)
   \<and> unsubscribe counting_env stale_session 0 (Some [97]) = (False, stale_session, 1)
   \<and> loop counting_env stale_session 0 = (False, stale_session, 1)
   \<and> disconnect counting_env stale_session 0 = (False, stale_session, 1)
   \<and> loop counting_env (stale_session\<lparr>connected_flag := False\<rparr>) 0
        = (False, stale_session\<lparr>connected_flag := False\<rparr>, 0)"
proof -
  have h: "\<not> fst (connected counting_env stale_session 0)"
    by (simp add: connected_def counting_env_def stale_session_def NULL_def)
  have w: "snd (connected counting_env stale_session 0) = 1"
    by (simp add: connected_def counting_env_def stale_session_def NULL_def)
  have h': "\<not> fst (connected counting_env (stale_session\<lparr>connected_flag := False\<rparr>) 0)"
    by (simp add: connected_def)
  have w': "snd (connected counting_env (stale_session\<lparr>connected_flag := False\<rparr>) 0) = 0"
    by (simp add: connected_def)
  show ?thesis
    using h w w' session_guard [OF h, of "Some [97]" 300 2 False 0]
      session_guard [OF h', of "Some [97]" 300 2 False 0]
    by simp
qed

text \<open>
  Claim C10 (\<^verbatim>\<open>setWill\<close> without a topic). For every session, \<^verbatim>\<open>setWill\<close> with a null
  topic or an empty topic returns at once: the session is unchanged, so a will
  installed before is still there, and the allocator is not called, so nothing is
  released.
\<close>

theorem setWill_without_topic:
  "setWill will_ok topic_ok payload_ok s None payload_arg retained_arg qos_arg = (s, [])
   \<and> setWill will_ok topic_ok payload_ok s (Some []) payload_arg retained_arg qos_arg = (s, [])"
  by (simp add: setWill_def)

theorem setWill_without_topic_witness:
  "setWill True True True session_with_will (Some []) (Some [99]) False 0 = (session_with_will, [])
   \<and> will session_with_will \<noteq> None
   \<and> fst (setWill True True True session_with_will (Some [100]) (Some [99]) False 0) \<noteq> session_with_will"
  using setWill_without_topic [of True True True session_with_will "Some [99]" False 0]
  by (simp add: session_with_will_def stale_session_def setWill_def clearWill_def lwmqtt_string_def strlen_def Let_def)

section \<open>Properties of the message dispatch\<close>

lemma handler_raw:
  "type cb = MQTT_CB_RAW \<Longrightarrow> MQTTClientHandler m cb tp msg =
     (m, Call_raw (client cb) (data tp) (unat (len tp)) (payload msg) (payload_len msg))"
  "type cb = MQTT_CB_FUNC_RAW \<Longrightarrow> MQTTClientHandler m cb tp msg =
     (m, Call_funcRaw (client cb) (data tp) (unat (len tp)) (payload msg) (payload_len msg))"
  by (simp_all add: MQTTClientHandler_def)

lemma handler_legacy_memory:
  assumes "legacy_type (type cb)"
  shows "fst (MQTTClientHandler m cb tp msg) =
     (let m1 = (if can_terminate (read_buffer_base cb) (read_buffer_end cb) (data tp) (unat (len tp))
                then m(ptr_add (data tp) (unat (len tp)) := 0) else m)
      in if payload msg \<noteq> NULL
            \<and> can_terminate (read_buffer_base cb) (read_buffer_end cb) (payload msg) (payload_len msg)
         then m1(ptr_add (payload msg) (payload_len msg) := 0) else m1)"
  using assms
  by (auto simp: MQTTClientHandler_def legacy_type_def Let_def read_buffer_base_def
      read_buffer_end_def)

lemma ptr_add_view: "view_in_address_space p n \<Longrightarrow> ptr_add p n = p + n"
  by (simp add: ptr_add_def view_in_address_space_def)

lemma in_read_buffer_view:
  "buffer_in_address_space cb \<Longrightarrow> in_read_buffer cb p n \<Longrightarrow> view_in_address_space p n"
  by (cases "client cb")
    (simp_all add: buffer_in_address_space_def in_read_buffer_def view_in_address_space_def)

lemma read_buffer_end_eq:
  "buffer_in_address_space cb \<Longrightarrow> client cb = Some c \<Longrightarrow> readBuf c \<noteq> NULL \<Longrightarrow>
   read_buffer_end cb = readBuf c + readBufSize c + 1"
  by (simp add: buffer_in_address_space_def read_buffer_end_def read_buffer_base_def
      ptr_add_def size_t_of_int_def nat_add_distrib)

lemma can_terminate_iff:
  assumes "buffer_in_address_space cb" "view_in_address_space p n"
  shows "can_terminate (read_buffer_base cb) (read_buffer_end cb) p n \<longleftrightarrow> in_read_buffer cb p n"
proof (cases "client cb")
  case None
  then show ?thesis
    by (simp add: can_terminate_def in_read_buffer_def read_buffer_base_def)
next
  case (Some c)
  show ?thesis
  proof (cases "readBuf c = NULL")
    case True
    with Some show ?thesis
      by (simp add: can_terminate_def in_read_buffer_def read_buffer_base_def)
  next
    case False
    with Some assms show ?thesis
      by (simp add: can_terminate_def in_read_buffer_def read_buffer_base_def
          read_buffer_end_eq ptr_add_view)
  qed
qed

lemma in_read_buffer_bounds:
  "in_read_buffer cb p n \<Longrightarrow> client cb = Some c \<Longrightarrow> readBuf c \<le> p + n \<and> p + n \<le> readBuf c + readBufSize c"
  by (simp add: in_read_buffer_def)



lemma handler_changed:
  assumes l: "legacy_type (type cb)" and d: "fst (MQTTClientHandler m cb tp msg) a \<noteq> m a"
  shows "fst (MQTTClientHandler m cb tp msg) a = 0
     \<and> (a = ptr_add (data tp) (unat (len tp))
                \<and> can_terminate (read_buffer_base cb) (read_buffer_end cb) (data tp) (unat (len tp))
              \<or> a = ptr_add (payload msg) (payload_len msg) \<and> payload msg \<noteq> NULL
                \<and> can_terminate (read_buffer_base cb) (read_buffer_end cb)
                      (payload msg) (payload_len msg))"
proof -
  let ?ct = "can_terminate (read_buffer_base cb) (read_buffer_end cb) (data tp) (unat (len tp))"
  let ?cp = "payload msg \<noteq> NULL
      \<and> can_terminate (read_buffer_base cb) (read_buffer_end cb) (payload msg) (payload_len msg)"
  let ?T = "ptr_add (data tp) (unat (len tp))"
  let ?P = "ptr_add (payload msg) (payload_len msg)"
  note eq = handler_legacy_memory [OF l, of m tp msg]
  show ?thesis
  proof (cases ?ct)
    case t: True
    show ?thesis
    proof (cases ?cp)
      case True
      with t eq have e: "fst (MQTTClientHandler m cb tp msg) = m(?T := 0, ?P := 0)"
        by (simp add: Let_def)
      show ?thesis
      proof (cases "a = ?P")
        case True
        with e \<open>?cp\<close> show ?thesis by simp
      next
        case nP: False
        show ?thesis
        proof (cases "a = ?T")
          case True
          with e nP t show ?thesis by simp
        next
          case False
          with e nP d show ?thesis by simp
        qed
      qed
    next
      case False
      with t eq have e: "fst (MQTTClientHandler m cb tp msg) = m(?T := 0)"
        by (auto simp: Let_def)
      show ?thesis
      proof (cases "a = ?T")
        case True
        with e t show ?thesis by simp
      next
        case False
        with e d show ?thesis by simp
      qed
    qed
  next
    case t: False
    show ?thesis
    proof (cases ?cp)
      case True
      with t eq have e: "fst (MQTTClientHandler m cb tp msg) = m(?P := 0)"
        by (simp add: Let_def)
      show ?thesis
      proof (cases "a = ?P")
        case True
        with e \<open>?cp\<close> show ?thesis by simp
      next
        case False
        with e d show ?thesis by simp
      qed
    next
      case False
      with t eq have e: "fst (MQTTClientHandler m cb tp msg) = m"
        by (auto simp: Let_def)
      with d show ?thesis by simp
    qed
  qed
qed

lemma handler_changed_contained:
  assumes l: "legacy_type (type cb)" and b: "buffer_in_address_space cb"
    and vt: "view_in_address_space (data tp) (unat (len tp))"
    and vp: "view_in_address_space (payload msg) (payload_len msg)"
    and d: "fst (MQTTClientHandler m cb tp msg) a \<noteq> m a"
  shows "a = data tp + unat (len tp) \<and> in_read_buffer cb (data tp) (unat (len tp))
              \<or> a = payload msg + payload_len msg \<and> payload msg \<noteq> NULL
                 \<and> in_read_buffer cb (payload msg) (payload_len msg)"
  using handler_changed [OF l d, THEN conjunct2] can_terminate_iff [OF b vt]
    can_terminate_iff [OF b vp] ptr_add_view [OF vt] ptr_add_view [OF vp]
  by simp

lemma handler_terminates_topic:
  assumes h: "legacy_type (type cb)" "buffer_in_address_space cb"
        "in_read_buffer cb (data tp) (unat (len tp))"
  shows "fst (MQTTClientHandler m cb tp msg) (data tp + unat (len tp)) = 0"
proof -
  have v: "view_in_address_space (data tp) (unat (len tp))"
    by (rule in_read_buffer_view [OF h(2,3)])
  from h have "can_terminate (read_buffer_base cb) (read_buffer_end cb) (data tp) (unat (len tp))"
    using can_terminate_iff [OF h(2) v] by simp
  with h show "fst (MQTTClientHandler m cb tp msg) (data tp + unat (len tp)) = 0"
    by (simp add: handler_legacy_memory Let_def ptr_add_view [OF v])
qed

lemma handler_terminates_payload:
  assumes h: "legacy_type (type cb)" "buffer_in_address_space cb"
        "payload msg \<noteq> NULL" "in_read_buffer cb (payload msg) (payload_len msg)"
  shows "fst (MQTTClientHandler m cb tp msg) (payload msg + payload_len msg) = 0"
proof -
  have v: "view_in_address_space (payload msg) (payload_len msg)"
    by (rule in_read_buffer_view [OF h(2,4)])
  from h have "can_terminate (read_buffer_base cb) (read_buffer_end cb) (payload msg) (payload_len msg)"
    using can_terminate_iff [OF h(2) v] by simp
  with h show ?thesis
    by (simp add: handler_legacy_memory Let_def ptr_add_view [OF v])
qed

text \<open>
  Claim C5 (callback termination safety). A raw callback, plain or \<^verbatim>\<open>std::function\<close>, is
  called with the topic and payload pointers and lengths of the decode step and the
  memory is left as it was. For the simple and advanced callbacks, every byte the
  handler changes becomes 0 and is the byte one past the topic view or one past the
  (non-null) payload view, that view having passed the check \<^verbatim>\<open>can_terminate\<close>. For
  well-formed addresses (the read buffer with its reserved byte lies in the address
  space, and so do the two views) the check is the containment of the view in the
  session's read buffer: a changed byte is one past a contained view and lies between
  the base of the read buffer and its reserved extra byte, so nothing outside the read
  buffer is written and a view from any other source is left alone. A contained view
  is terminated: the byte one past it is 0 afterwards. In particular a topic view that
  ends at the last valid offset of the read buffer is terminated in the reserved byte.
\<close>

theorem callback_termination_safety:
  "(type cb = MQTT_CB_RAW \<longrightarrow> MQTTClientHandler m cb tp msg =
       (m, Call_raw (client cb) (data tp) (unat (len tp)) (payload msg) (payload_len msg)))
   \<and> (type cb = MQTT_CB_FUNC_RAW \<longrightarrow> MQTTClientHandler m cb tp msg =
       (m, Call_funcRaw (client cb) (data tp) (unat (len tp)) (payload msg) (payload_len msg)))
   \<and> (legacy_type (type cb) \<longrightarrow>
        (\<forall>a. fst (MQTTClientHandler m cb tp msg) a \<noteq> m a \<longrightarrow>
           fst (MQTTClientHandler m cb tp msg) a = 0
           \<and> (a = ptr_add (data tp) (unat (len tp))
                \<and> can_terminate (read_buffer_base cb) (read_buffer_end cb) (data tp) (unat (len tp))
              \<or> a = ptr_add (payload msg) (payload_len msg) \<and> payload msg \<noteq> NULL
                \<and> can_terminate (read_buffer_base cb) (read_buffer_end cb)
                      (payload msg) (payload_len msg))))
   \<and> (legacy_type (type cb) \<and> buffer_in_address_space cb
        \<and> view_in_address_space (data tp) (unat (len tp))
        \<and> view_in_address_space (payload msg) (payload_len msg) \<longrightarrow>
        (\<forall>a. fst (MQTTClientHandler m cb tp msg) a \<noteq> m a \<longrightarrow>
           (a = data tp + unat (len tp) \<and> in_read_buffer cb (data tp) (unat (len tp))
              \<or> a = payload msg + payload_len msg \<and> payload msg \<noteq> NULL
                 \<and> in_read_buffer cb (payload msg) (payload_len msg))
           \<and> (\<exists>c. client cb = Some c \<and> readBuf c \<le> a \<and> a \<le> readBuf c + readBufSize c)))
   \<and> (legacy_type (type cb) \<and> buffer_in_address_space cb
        \<and> in_read_buffer cb (data tp) (unat (len tp)) \<longrightarrow>
        fst (MQTTClientHandler m cb tp msg) (data tp + unat (len tp)) = 0)
   \<and> (legacy_type (type cb) \<and> buffer_in_address_space cb
        \<and> payload msg \<noteq> NULL \<and> in_read_buffer cb (payload msg) (payload_len msg) \<longrightarrow>
        fst (MQTTClientHandler m cb tp msg) (payload msg + payload_len msg) = 0)
   \<and> (legacy_type (type cb) \<and> buffer_in_address_space cb \<longrightarrow>
        (\<forall>c. client cb = Some c \<and> readBuf c \<noteq> NULL \<and> readBuf c \<le> data tp
               \<and> data tp + unat (len tp) = readBuf c + readBufSize c \<longrightarrow>
             fst (MQTTClientHandler m cb tp msg) (readBuf c + readBufSize c) = 0))"
proof (intro conjI impI allI)
  assume "type cb = MQTT_CB_RAW"
  then show "MQTTClientHandler m cb tp msg =
       (m, Call_raw (client cb) (data tp) (unat (len tp)) (payload msg) (payload_len msg))"
    by (rule handler_raw)
next
  assume "type cb = MQTT_CB_FUNC_RAW"
  then show "MQTTClientHandler m cb tp msg =
       (m, Call_funcRaw (client cb) (data tp) (unat (len tp)) (payload msg) (payload_len msg))"
    by (rule handler_raw)
next
  fix a
  assume l: "legacy_type (type cb)" and d: "fst (MQTTClientHandler m cb tp msg) a \<noteq> m a"
  show "fst (MQTTClientHandler m cb tp msg) a = 0"
    by (rule handler_changed [OF l d, THEN conjunct1])
  show "a = ptr_add (data tp) (unat (len tp))
                \<and> can_terminate (read_buffer_base cb) (read_buffer_end cb) (data tp) (unat (len tp))
              \<or> a = ptr_add (payload msg) (payload_len msg) \<and> payload msg \<noteq> NULL
                \<and> can_terminate (read_buffer_base cb) (read_buffer_end cb)
                      (payload msg) (payload_len msg)"
    by (rule handler_changed [OF l d, THEN conjunct2])
next
  fix a
  assume h: "legacy_type (type cb) \<and> buffer_in_address_space cb
        \<and> view_in_address_space (data tp) (unat (len tp))
        \<and> view_in_address_space (payload msg) (payload_len msg)"
    and d: "fst (MQTTClientHandler m cb tp msg) a \<noteq> m a"
  from h have l: "legacy_type (type cb)" and b: "buffer_in_address_space cb"
    and vt: "view_in_address_space (data tp) (unat (len tp))"
    and vp: "view_in_address_space (payload msg) (payload_len msg)"
    by simp_all
  show w: "a = data tp + unat (len tp) \<and> in_read_buffer cb (data tp) (unat (len tp))
              \<or> a = payload msg + payload_len msg \<and> payload msg \<noteq> NULL
                 \<and> in_read_buffer cb (payload msg) (payload_len msg)"
    by (rule handler_changed_contained [OF l b vt vp d])
  then consider "a = data tp + unat (len tp)" "in_read_buffer cb (data tp) (unat (len tp))"
    | "a = payload msg + payload_len msg" "in_read_buffer cb (payload msg) (payload_len msg)"
    by fastforce
  then show "\<exists>c. client cb = Some c \<and> readBuf c \<le> a \<and> a \<le> readBuf c + readBufSize c"
  proof cases
    case 1
    from 1(2) obtain c where c: "client cb = Some c"
      by (cases "client cb") (simp_all add: in_read_buffer_def)
    with in_read_buffer_bounds [OF 1(2) c] 1(1) show ?thesis by simp
  next
    case 2
    from 2(2) obtain c where c: "client cb = Some c"
      by (cases "client cb") (simp_all add: in_read_buffer_def)
    with in_read_buffer_bounds [OF 2(2) c] 2(1) show ?thesis by simp
  qed
next
  assume "legacy_type (type cb) \<and> buffer_in_address_space cb
        \<and> in_read_buffer cb (data tp) (unat (len tp))"
  then show "fst (MQTTClientHandler m cb tp msg) (data tp + unat (len tp)) = 0"
    by (simp add: handler_terminates_topic)
next
  assume "legacy_type (type cb) \<and> buffer_in_address_space cb
        \<and> payload msg \<noteq> NULL \<and> in_read_buffer cb (payload msg) (payload_len msg)"
  then show "fst (MQTTClientHandler m cb tp msg) (payload msg + payload_len msg) = 0"
    by (simp add: handler_terminates_payload)
next
  fix c
  assume h: "legacy_type (type cb) \<and> buffer_in_address_space cb"
    and g: "client cb = Some c \<and> readBuf c \<noteq> NULL \<and> readBuf c \<le> data tp
               \<and> data tp + unat (len tp) = readBuf c + readBufSize c"
  then have i: "in_read_buffer cb (data tp) (unat (len tp))"
    by (simp add: in_read_buffer_def)
  with h have "fst (MQTTClientHandler m cb tp msg) (data tp + unat (len tp)) = 0"
    by (simp add: handler_terminates_topic)
  with g show "fst (MQTTClientHandler m cb tp msg) (readBuf c + readBufSize c) = 0"
    by simp
qed

text \<open>
  A session with a 64-byte read buffer at address 100. A topic view of the last four
  bytes of the buffer with a payload view outside, at address 500; and a topic and a
  payload view inside the buffer, for a simple and for the raw callbacks. The bytes
  that get terminated are not 0 before.
\<close>

theorem callback_termination_safety_witness:
  "bytes_at 160 [1, 2, 3, 4, 5] 164 = 5
   \<and> fst (MQTTClientHandler (bytes_at 160 [1, 2, 3, 4, 5])
          \<lparr>client = Some stale_session, type = MQTT_CB_ADVANCED\<rparr>
          \<lparr>len = 4, data = 160\<rparr> \<lparr>qos = 0, retained = False, payload = 500, payload_len = 3\<rparr>) 164 = 0
   \<and> fst (MQTTClientHandler (bytes_at 500 [7, 7, 7, 7])
          \<lparr>client = Some stale_session, type = MQTT_CB_ADVANCED\<rparr>
          \<lparr>len = 4, data = 160\<rparr> \<lparr>qos = 0, retained = False, payload = 500, payload_len = 3\<rparr>) 503 = 7
   \<and> bytes_at 100 [1, 2, 3, 4, 5, 6, 7, 8, 9, 10] 105 = 6
   \<and> fst (MQTTClientHandler (bytes_at 100 [1, 2, 3, 4, 5, 6, 7, 8, 9, 10])
          \<lparr>client = Some stale_session, type = MQTT_CB_SIMPLE\<rparr>
          \<lparr>len = 3, data = 102\<rparr> \<lparr>qos = 0, retained = False, payload = 107, payload_len = 2\<rparr>) 105 = 0
   \<and> bytes_at 100 [1, 2, 3, 4, 5, 6, 7, 8, 9, 10] 109 = 10
   \<and> fst (MQTTClientHandler (bytes_at 100 [1, 2, 3, 4, 5, 6, 7, 8, 9, 10])
          \<lparr>client = Some stale_session, type = MQTT_CB_SIMPLE\<rparr>
          \<lparr>len = 3, data = 102\<rparr> \<lparr>qos = 0, retained = False, payload = 107, payload_len = 2\<rparr>) 109 = 0
   \<and> MQTTClientHandler (bytes_at 100 [1, 2, 3, 4, 5, 6, 7, 8, 9, 10])
          \<lparr>client = Some stale_session, type = MQTT_CB_RAW\<rparr>
          \<lparr>len = 3, data = 102\<rparr> \<lparr>qos = 0, retained = False, payload = 107, payload_len = 2\<rparr>
        = (bytes_at 100 [1, 2, 3, 4, 5, 6, 7, 8, 9, 10], Call_raw (Some stale_session) 102 3 107 2)
   \<and> MQTTClientHandler (bytes_at 100 [1, 2, 3, 4, 5, 6, 7, 8, 9, 10])
          \<lparr>client = Some stale_session, type = MQTT_CB_FUNC_RAW\<rparr>
          \<lparr>len = 3, data = 102\<rparr> \<lparr>qos = 0, retained = False, payload = 107, payload_len = 2\<rparr>
        = (bytes_at 100 [1, 2, 3, 4, 5, 6, 7, 8, 9, 10], Call_funcRaw (Some stale_session) 102 3 107 2)"
proof -
  let ?m = "bytes_at 100 [1, 2, 3, 4, 5, 6, 7, 8, 9, 10]"
  let ?far = "\<lparr>qos = 0, retained = False, payload = 500, payload_len = 3\<rparr>"
  let ?near = "\<lparr>qos = 0, retained = False, payload = 107, payload_len = 2\<rparr>"
  let ?adv = "\<lparr>client = Some stale_session, type = MQTT_CB_ADVANCED\<rparr>"
  let ?smp = "\<lparr>client = Some stale_session, type = MQTT_CB_SIMPLE\<rparr>"
  let ?last = "\<lparr>len = 4, data = 160\<rparr> :: ptr lwmqtt_string_t"
  let ?tp = "\<lparr>len = 3, data = 102\<rparr> :: ptr lwmqtt_string_t"
  have adv: "legacy_type (type ?adv) \<and> buffer_in_address_space ?adv"
    and smp: "legacy_type (type ?smp) \<and> buffer_in_address_space ?smp"
    by (simp_all add: legacy_type_def buffer_in_address_space_def stale_session_def)
  have views: "view_in_address_space (data ?last) (unat (len ?last))"
    "view_in_address_space (payload ?far) (payload_len ?far)"
    by (simp_all add: view_in_address_space_def)
  have inside: "in_read_buffer ?smp (data ?tp) (unat (len ?tp))"
    "payload ?near \<noteq> NULL \<and> in_read_buffer ?smp (payload ?near) (payload_len ?near)"
    by (simp_all add: in_read_buffer_def stale_session_def NULL_def)
  have 0: "bytes_at 160 [1, 2, 3, 4, 5] 164 = 5" "?m 105 = 6" "?m 109 = 10"
    by (simp_all add: bytes_at_def)
  have 1: "fst (MQTTClientHandler (bytes_at 160 [1, 2, 3, 4, 5]) ?adv ?last ?far) 164 = 0"
    using callback_termination_safety [of ?adv "bytes_at 160 [1, 2, 3, 4, 5]" ?last ?far,
        THEN conjunct2, THEN conjunct2, THEN conjunct2, THEN conjunct2, THEN conjunct2,
        THEN conjunct2, THEN mp, OF adv, THEN spec, of stale_session]
    by (simp add: stale_session_def NULL_def)
  have 2: "fst (MQTTClientHandler (bytes_at 500 [7, 7, 7, 7]) ?adv ?last ?far) 503 = 7"
    using callback_termination_safety [of ?adv "bytes_at 500 [7, 7, 7, 7]" ?last ?far,
        THEN conjunct2, THEN conjunct2, THEN conjunct2, THEN conjunct1, THEN mp,
        OF conjI [OF adv [THEN conjunct1] conjI [OF adv [THEN conjunct2] conjI [OF views]]],
        THEN spec, of 503]
    by (auto simp: stale_session_def bytes_at_def)
  have 3: "fst (MQTTClientHandler ?m ?smp ?tp ?near) 105 = 0"
    using callback_termination_safety [of ?smp ?m ?tp ?near,
        THEN conjunct2, THEN conjunct2, THEN conjunct2, THEN conjunct2, THEN conjunct1, THEN mp,
        OF conjI [OF smp [THEN conjunct1] conjI [OF smp [THEN conjunct2] inside(1)]]]
    by simp
  have 4: "fst (MQTTClientHandler ?m ?smp ?tp ?near) 109 = 0"
    using callback_termination_safety [of ?smp ?m ?tp ?near,
        THEN conjunct2, THEN conjunct2, THEN conjunct2, THEN conjunct2, THEN conjunct2,
        THEN conjunct1, THEN mp,
        OF conjI [OF smp [THEN conjunct1] conjI [OF smp [THEN conjunct2] inside(2)]]]
    by simp
  have 5: "MQTTClientHandler ?m \<lparr>client = Some stale_session, type = MQTT_CB_RAW\<rparr> ?tp ?near
      = (?m, Call_raw (Some stale_session) 102 3 107 2)"
    using callback_termination_safety [of "\<lparr>client = Some stale_session, type = MQTT_CB_RAW\<rparr>"
        ?m ?tp ?near, THEN conjunct1]
    by simp
  have 6: "MQTTClientHandler ?m \<lparr>client = Some stale_session, type = MQTT_CB_FUNC_RAW\<rparr> ?tp ?near
      = (?m, Call_funcRaw (Some stale_session) 102 3 107 2)"
    using callback_termination_safety [of "\<lparr>client = Some stale_session, type = MQTT_CB_FUNC_RAW\<rparr>"
        ?m ?tp ?near, THEN conjunct2, THEN conjunct1]
    by simp
  from 0 1 2 3 4 5 6 show ?thesis
    by (intro conjI)
qed

end
